theory Spec2Isabelle
  imports Complex_Main "HOL-Library.Log_Nat"
begin

section \<open>Python numbers\<close>

text \<open>
  A Python \<open>float\<close> is an IEEE-754 binary64 value, and every arithmetic operation on floats
  returns the exact result rounded to the nearest such value, ties to the even significand.
  A float is modelled by the real number it denotes, and every operation of the source is
  the exact operation followed by the rounding \<open>fl\<close> to 53 significant bits. The exponent
  range is not bounded in this model, so a value of magnitude \<open>2 ^ 1024\<close> or more stands
  for a result that has overflowed to infinity in the code; \<open>finite_float\<close> says that a
  value is a float below that magnitude. Gradual underflow, which needs magnitudes below
  \<open>1e-308\<close>, NaN and the sign of zero are outside the model.

  Division is the one operation of the source that raises: Python's \<open>/\<close> raises
  \<open>ZeroDivisionError\<close> on a zero divisor, for \<open>int\<close> and for \<open>float\<close> operands alike.
\<close>

datatype py_error = ZeroDivisionError | ValueError

definition py_bind :: "py_error + 'a \<Rightarrow> ('a \<Rightarrow> py_error + 'b) \<Rightarrow> py_error + 'b" where
  "py_bind r f = (case r of Inl e \<Rightarrow> Inl e | Inr v \<Rightarrow> f v)"

definition round_half_even :: "real \<Rightarrow> int" where
  "round_half_even x =
     (let f = \<lfloor>x\<rfloor>; r = x - of_int f
      in if r < 1/2 then f else if 1/2 < r then f + 1 else if even f then f else f + 1)"

text \<open>The binary exponent of a positive real: \<open>2 powi exponent x \<le> x < 2 powi (exponent x + 1)\<close>.\<close>

definition exponent :: "real \<Rightarrow> int" where
  "exponent x = (if 1 \<le> x then bitlen \<lfloor>x\<rfloor> - 1 else - bitlen (\<lceil>1 / x\<rceil> - 1))"

definition fl :: "real \<Rightarrow> real" where
  "fl x = (if x = 0 then 0
           else let q = 2 powi (exponent \<bar>x\<bar> - 52)
                in of_int (round_half_even (x / q)) * q)"

text \<open>
  The floats are the fixed points of the rounding; the finite ones of the code are those
  of magnitude below \<open>2 ^ 1024\<close>.
\<close>

definition is_float :: "real \<Rightarrow> bool" where
  "is_float x = (fl x = x)"

definition finite_float :: "real \<Rightarrow> bool" where
  "finite_float x = (fl x = x \<and> \<bar>x\<bar> < 2 ^ 1024)"

definition fadd :: "real \<Rightarrow> real \<Rightarrow> real" where
  "fadd x y = fl (x + y)"

definition fsub :: "real \<Rightarrow> real \<Rightarrow> real" where
  "fsub x y = fl (x - y)"

definition fmul :: "real \<Rightarrow> real \<Rightarrow> real" where
  "fmul x y = fl (x * y)"

text \<open>
  \<open>x / y\<close> with a builtin float operand \<open>y\<close>. The source divides by
  \<open>sentence_length_mean\<close> as the upstream stage stored it; were that a \<open>numpy.float64\<close>,
  a zero divisor would give infinity or NaN with a warning instead of raising, so no
  statement below rests on the zero branch. The two agree on every nonzero divisor.
\<close>

definition float_truediv :: "real \<Rightarrow> real \<Rightarrow> py_error + real" where
  "float_truediv x y = (if y = 0 then Inl ZeroDivisionError else Inr (fl (x / y)))"

text \<open>\<open>a / b\<close> on two ints: the correctly rounded quotient.\<close>

definition int_truediv :: "int \<Rightarrow> int \<Rightarrow> py_error + real" where
  "int_truediv a b =
     (if b = 0 then Inl ZeroDivisionError else Inr (fl (of_int a / of_int b)))"

text \<open>The conversion of an int operand in a mixed operation.\<close>

definition float_of_int :: "int \<Rightarrow> real" where
  "float_of_int n = fl (of_int n)"

text \<open>
  \<open>x ** 0.5\<close> on a float calls the \<open>pow\<close> of the C library, which is accurate to the
  last place or so but need not return the correctly rounded root. The operation is
  therefore a parameter \<open>pow_half\<close> of \<open>smog\<close> and \<open>readability\<close>: the function from
  \<open>x \<ge> 0\<close> to the float \<open>x ** 0.5\<close> of the platform. The source's only use has
  \<open>x = 30 * (hard_words / n_sentences)\<close> with \<open>hard_words\<close> a length and
  \<open>n_sentences \<ge> 3\<close>, so the base is never negative.

  \<open>pow_half_accurate\<close> is what the statements about magnitudes ask of the platform: a
  relative error of at most \<open>2 ^ -51\<close>. \<open>rounded_sqrt\<close> is the correctly rounded root, the
  best such function, and what \<open>math.sqrt\<close> returns.
\<close>

definition pow_half_accurate :: "(real \<Rightarrow> real) \<Rightarrow> bool" where
  "pow_half_accurate pow_half =
     (\<forall>x\<ge>0. \<bar>pow_half x - sqrt x\<bar> \<le> sqrt x / 2 ^ 51)"

definition rounded_sqrt :: "real \<Rightarrow> real" where
  "rounded_sqrt x = fl (sqrt x)"

text \<open>
  The power function of glibc on x86-64 at the arguments that occur below: at
  \<open>30 * (60 / 11) = 163.63636363636363\<close> it returns \<open>12.792042981336625\<close>, the float just
  below the correctly rounded root \<open>12.792042981336627\<close>; at \<open>0\<close> and at \<open>30\<close> it returns
  the correctly rounded root, which is taken everywhere else as well.
\<close>

definition glibc_pow_half :: "real \<Rightarrow> real" where
  "glibc_pow_half x =
     (if x = 1439360676361309 / 8796093022208 then 3600640000253437 / 281474976710656
      else fl (sqrt x))"

section \<open>The document statistics\<close>

text \<open>
  The attributes of \<open>doc._\<close> that the component reads: the three means (floats), the two
  counts (ints), the per-token syllable counts and the filtered tokens, whose \<open>len\<close> is
  their number of characters.
\<close>

record doc =
  sentence_length_mean :: real
  syllables_per_token_mean :: real
  token_length_mean :: real
  n_sentences :: int
  n_tokens :: int
  n_syllables :: "int list"
  filtered_tokens :: "string list"

section \<open>The readability component\<close>

definition hard_words :: "doc \<Rightarrow> nat" where
  "hard_words d = length (filter (\<lambda>syllable. 3 \<le> syllable) (n_syllables d))"

definition long_words :: "doc \<Rightarrow> nat" where
  "long_words d = length (filter (\<lambda>t. 6 < length t) (filtered_tokens d))"

definition flesch_reading_ease :: "doc \<Rightarrow> real" where
  "flesch_reading_ease d =
     fsub (fsub (fl 206.835) (fmul (fl 1.015) (sentence_length_mean d)))
          (fmul (fl 84.6) (syllables_per_token_mean d))"

definition flesch_kincaid_grade :: "doc \<Rightarrow> real" where
  "flesch_kincaid_grade d =
     fsub (fadd (fmul (fl 0.39) (sentence_length_mean d))
                (fmul (fl 11.8) (syllables_per_token_mean d)))
          (fl 15.59)"

definition smog :: "(real \<Rightarrow> real) \<Rightarrow> doc \<Rightarrow> nat \<Rightarrow> py_error + real" where
  "smog pow_half d hw =
     (if 3 \<le> n_sentences d
      then py_bind (int_truediv (int hw) (n_sentences d)) (\<lambda>q.
             Inr (fadd (fmul (fl 1.043) (pow_half (fmul (float_of_int 30) q))) (fl 3.1291)))
      else Inr 0)"

definition gunning_fog :: "doc \<Rightarrow> nat \<Rightarrow> py_error + real" where
  "gunning_fog d hw =
     (let avg_sent_len = sentence_length_mean d
      in py_bind (int_truediv (int hw) (n_tokens d)) (\<lambda>q.
           let percent_hard_words = fmul q (float_of_int 100)
           in Inr (fmul (fl 0.4) (fadd avg_sent_len percent_hard_words))))"

definition automated_readability_index :: "doc \<Rightarrow> real" where
  "automated_readability_index d =
     fsub (fadd (fmul (fl 4.71) (token_length_mean d))
                (fmul (fl 0.5) (sentence_length_mean d)))
          (fl 21.43)"

definition coleman_liau_index :: "doc \<Rightarrow> py_error + real" where
  "coleman_liau_index d =
     (let l = fmul (token_length_mean d) (float_of_int 100)
      in py_bind (float_truediv (float_of_int (n_sentences d)) (sentence_length_mean d)) (\<lambda>q.
           let s = fmul q (float_of_int 100)
           in Inr (fsub (fsub (fmul (fl 0.0588) l) (fmul (fl 0.296) s)) (fl 15.8))))"

definition lix :: "doc \<Rightarrow> nat \<Rightarrow> py_error + real" where
  "lix d lw =
     py_bind (int_truediv (int lw) (n_tokens d)) (\<lambda>q.
       let percent_long_words = fmul q (float_of_int 100)
       in Inr (fadd (sentence_length_mean d) percent_long_words))"

definition rix :: "doc \<Rightarrow> nat \<Rightarrow> py_error + real" where
  "rix d lw = int_truediv (int lw) (n_sentences d)"

text \<open>
  The dictionary display evaluates its values from top to bottom; the first one that
  raises ends the call, and no dictionary is built.
\<close>

definition readability :: "(real \<Rightarrow> real) \<Rightarrow> doc \<Rightarrow> py_error + (string \<rightharpoonup> real)" where
  "readability pow_half d =
     (let hw = hard_words d; lw = long_words d;
          v1 = flesch_reading_ease d;
          v2 = flesch_kincaid_grade d
      in py_bind (smog pow_half d hw) (\<lambda>v3.
         py_bind (gunning_fog d hw) (\<lambda>v4.
         let v5 = automated_readability_index d
         in py_bind (coleman_liau_index d) (\<lambda>v6.
            py_bind (lix d lw) (\<lambda>v7.
            py_bind (rix d lw) (\<lambda>v8.
              Inr (map_of
                [(''flesch_reading_ease'', v1),
                 (''flesch_kincaid_grade'', v2),
                 (''smog'', v3),
                 (''gunning_fog'', v4),
                 (''automated_readability_index'', v5),
                 (''coleman_liau_index'', v6),
                 (''lix'', v7),
                 (''rix'', v8)])))))))"

definition readability_keys :: "string set" where
  "readability_keys =
     {''flesch_reading_ease'', ''flesch_kincaid_grade'', ''smog'', ''gunning_fog'',
      ''automated_readability_index'', ''coleman_liau_index'', ''lix'', ''rix''}"

section \<open>Registration of the extension\<close>

text \<open>
  The extensions of \<open>Doc\<close> are a class-wide table from names to entries; the entry the
  component stores is the bound method \<open>self.readability\<close>, identified here by the
  instance it is bound to. \<open>Doc.set_extension\<close> without \<open>force\<close> raises \<open>ValueError\<close>
  on a name that is already in the table.
\<close>

datatype extension = Getter nat

type_synonym extensions = "string \<rightharpoonup> extension"

definition has_extension :: "extensions \<Rightarrow> string \<Rightarrow> bool" where
  "has_extension exts name = (name \<in> dom exts)"

definition set_extension :: "extensions \<Rightarrow> string \<Rightarrow> extension \<Rightarrow> py_error + extensions" where
  "set_extension exts name ext =
     (if name \<in> dom exts then Inl ValueError else Inr (exts(name \<mapsto> ext)))"

text \<open>\<open>Readability.__init__\<close>, for the instance \<open>self\<close>.\<close>

definition init :: "nat \<Rightarrow> extensions \<Rightarrow> py_error + extensions" where
  "init self exts =
     (if \<not> has_extension exts ''readability''
      then set_extension exts ''readability'' (Getter self)
      else Inr exts)"

section \<open>Example documents\<close>

text \<open>A text of punctuation only: one sentence, no token left after filtering.\<close>

definition punct_doc :: doc where
  "punct_doc = \<lparr>sentence_length_mean = 0, syllables_per_token_mean = 0,
     token_length_mean = 0, n_sentences = 1, n_tokens = 0,
     n_syllables = [], filtered_tokens = []\<rparr>"

text \<open>The empty text.\<close>

definition empty_doc :: doc where
  "empty_doc = \<lparr>sentence_length_mean = 0, syllables_per_token_mean = 0,
     token_length_mean = 0, n_sentences = 0, n_tokens = 0,
     n_syllables = [], filtered_tokens = []\<rparr>"

text \<open>
  The scenario of the specification: 4 sentences, 40 tokens, of which 4 have at least
  three syllables and 6 have more than six characters.
\<close>

definition scenario_doc :: doc where
  "scenario_doc = \<lparr>sentence_length_mean = 10, syllables_per_token_mean = 1.5,
     token_length_mean = 5, n_sentences = 4, n_tokens = 40,
     n_syllables = replicate 4 3 @ replicate 36 1,
     filtered_tokens = replicate 6 ''reading'' @ replicate 34 ''text''\<rparr>"

text \<open>
  A document of ordinary size: the means have magnitude at most \<open>2 ^ 500\<close>, the sentence
  length is at least \<open>2 ^ -500\<close> in magnitude, and the counts and the lengths of the two
  sequences are at most \<open>2 ^ 63\<close>.
\<close>

definition moderate :: "doc \<Rightarrow> bool" where
  "moderate d =
     (1 / 2 ^ 500 \<le> \<bar>sentence_length_mean d\<bar> \<and> \<bar>sentence_length_mean d\<bar> \<le> 2 ^ 500
      \<and> \<bar>syllables_per_token_mean d\<bar> \<le> 2 ^ 500 \<and> \<bar>token_length_mean d\<bar> \<le> 2 ^ 500
      \<and> \<bar>n_sentences d\<bar> \<le> 2 ^ 63 \<and> \<bar>n_tokens d\<bar> \<le> 2 ^ 63
      \<and> length (n_syllables d) \<le> 2 ^ 63 \<and> length (filtered_tokens d) \<le> 2 ^ 63)"

text \<open>
  The scenario with the largest finite float, \<open>1.7976931348623157e308\<close>, as the mean
  sentence length.
\<close>

definition huge_doc :: doc where
  "huge_doc = scenario_doc\<lparr>sentence_length_mean := 2 ^ 1024 - 2 ^ 971\<rparr>"

text \<open>The float that follows \<open>10.0\<close>, written \<open>10.000000000000002\<close> in Python.\<close>

definition next_after_ten :: real where
  "next_after_ten = 5629499534213121 / 562949953421312"

section \<open>Rounding\<close>

subsection \<open>Rounding to an integer\<close>

lemma rhe_cases:
  "round_half_even x = \<lfloor>x\<rfloor> \<or> round_half_even x = \<lfloor>x\<rfloor> + 1"
  by (simp add: round_half_even_def Let_def)

lemma rhe_upper: "of_int (round_half_even x) \<le> x + 1/2"
  unfolding round_half_even_def Let_def
  by (auto simp: not_less) linarith+

lemma rhe_lower: "x - 1/2 \<le> of_int (round_half_even x)"
  unfolding round_half_even_def Let_def
  by (auto simp: not_less) linarith+

lemma rhe_of_int [simp]: "round_half_even (of_int k) = k"
  by (simp add: round_half_even_def)

lemma rhe_mono: "x \<le> y \<Longrightarrow> round_half_even x \<le> round_half_even y"
proof -
  assume xy: "x \<le> y"
  then have f: "\<lfloor>x\<rfloor> \<le> \<lfloor>y\<rfloor>" by (rule floor_mono)
  show ?thesis
  proof (cases "\<lfloor>x\<rfloor> = \<lfloor>y\<rfloor>")
    case True
    with xy show ?thesis
      unfolding round_half_even_def Let_def by auto
  next
    case False
    with f have "\<lfloor>x\<rfloor> + 1 \<le> \<lfloor>y\<rfloor>" by simp
    moreover have "round_half_even x \<le> \<lfloor>x\<rfloor> + 1"
      using rhe_cases [of x] by auto
    moreover have "\<lfloor>y\<rfloor> \<le> round_half_even y"
      using rhe_cases [of y] by auto
    ultimately show ?thesis by linarith
  qed
qed

lemma rhe_minus: "round_half_even (- x) = - round_half_even x"
proof (cases "x = of_int \<lfloor>x\<rfloor>")
  case True
  then obtain k where "x = of_int k" ..
  then have "- x = of_int (- k)" by simp
  with \<open>x = of_int k\<close> show ?thesis
    by (simp only: rhe_of_int)
next
  case False
  then have fm: "\<lfloor>- x\<rfloor> = - \<lfloor>x\<rfloor> - 1"
    by (simp add: floor_minus ceiling_altdef)
  show ?thesis
    unfolding round_half_even_def Let_def fm
    by (auto simp: not_less) (linarith+)?
qed

subsection \<open>The binary exponent\<close>

lemma exponent_bounds_ge1:
  assumes "1 \<le> x"
  shows "2 powi exponent x \<le> x \<and> x < 2 powi (exponent x + 1)"
proof -
  let ?k = "\<lfloor>x\<rfloor>"
  from assms have k: "0 < ?k" by simp
  from k have b1: "1 \<le> bitlen ?k"
    using bitlen_eq_zero_iff [of ?k] bitlen_nonneg [of ?k] by linarith
  from bitlen_bounds [OF k]
  have lo: "2 ^ nat (bitlen ?k - 1) \<le> ?k" and hi: "?k < 2 ^ nat (bitlen ?k)" by simp_all
  have e: "exponent x = bitlen ?k - 1"
    using assms by (simp add: exponent_def)
  have "(2::real) powi (bitlen ?k - 1) = 2 ^ nat (bitlen ?k - 1)"
    using b1 by (simp add: power_int_nonneg_exp)
  also have "\<dots> = of_int (2 ^ nat (bitlen ?k - 1))" by simp
  also have "\<dots> \<le> of_int ?k" using lo by (simp only: of_int_le_iff)
  also have "\<dots> \<le> x" by simp
  finally have 1: "2 powi exponent x \<le> x" by (simp add: e)
  have "?k + 1 \<le> 2 ^ nat (bitlen ?k)" using hi by simp
  then have "of_int (?k + 1) \<le> (of_int (2 ^ nat (bitlen ?k)) :: real)"
    by (simp only: of_int_le_iff)
  moreover have "x < of_int (?k + 1)" by linarith
  ultimately have "x < of_int (2 ^ nat (bitlen ?k))" by linarith
  then have "x < 2 ^ nat (bitlen ?k)" by simp
  also have "\<dots> = 2 powi (bitlen ?k)"
    using b1 by (simp add: power_int_nonneg_exp)
  finally have 2: "x < 2 powi (exponent x + 1)" by (simp add: e)
  from 1 2 show ?thesis ..
qed

lemma exponent_bounds_lt1:
  assumes "0 < x" "x < 1"
  shows "2 powi exponent x \<le> x \<and> x < 2 powi (exponent x + 1)"
proof -
  let ?c = "\<lceil>1 / x\<rceil>"
  let ?j = "?c - 1"
  let ?b = "bitlen ?j"
  from assms have "1 < 1 / x" by simp
  then have c2: "2 \<le> ?c" by (simp add: le_ceiling_iff)
  then have j: "0 < ?j" by simp
  from j have b1: "1 \<le> ?b"
    using bitlen_eq_zero_iff [of ?j] bitlen_nonneg [of ?j] by linarith
  from bitlen_bounds [OF j]
  have lo: "2 ^ nat (?b - 1) \<le> ?j" and hi: "?j < 2 ^ nat ?b" by simp_all
  have e: "exponent x = - ?b"
    using assms by (simp add: exponent_def)
  have p1: "(2::real) powi (?b - 1) = of_int (2 ^ nat (?b - 1))"
    using b1 by (simp add: power_int_nonneg_exp)
  have p2: "(2::real) powi ?b = of_int (2 ^ nat ?b)"
    using b1 by (simp add: power_int_nonneg_exp)
  have "of_int ?j < 1 / x" by linarith
  moreover have "of_int (2 ^ nat (?b - 1)) \<le> (of_int ?j :: real)"
    using lo by (simp only: of_int_le_iff)
  ultimately have a: "2 powi (?b - 1) < 1 / x" using p1 by linarith
  have "?c \<le> 2 ^ nat ?b" using hi by simp
  then have "of_int ?c \<le> (of_int (2 ^ nat ?b) :: real)" by (simp only: of_int_le_iff)
  moreover have "1 / x \<le> of_int ?c" by simp
  ultimately have b: "1 / x \<le> 2 powi ?b" using p2 by linarith
  have pos1: "0 < (2::real) powi (?b - 1)" and pos2: "0 < (2::real) powi ?b" by simp_all
  from b assms(1) pos2 have "1 / 2 powi ?b \<le> x"
    by (simp add: field_simps)
  then have 1: "2 powi exponent x \<le> x"
    by (simp add: e power_int_minus_divide)
  from a assms(1) pos1 have "x < 1 / 2 powi (?b - 1)"
    by (simp add: field_simps)
  also have "\<dots> = 2 powi (- (?b - 1))" by (simp only: power_int_minus_divide)
  finally have 2: "x < 2 powi (exponent x + 1)" by (simp add: e)
  from 1 2 show ?thesis ..
qed

lemma exponent_bounds:
  "0 < x \<Longrightarrow> 2 powi exponent x \<le> x \<and> x < 2 powi (exponent x + 1)"
  using exponent_bounds_ge1 [of x] exponent_bounds_lt1 [of x] by linarith

lemma exponent_unique:
  assumes "2 powi e \<le> x" "x < 2 powi (e + 1)"
  shows "exponent x = e"
proof -
  have "0 < (2::real) powi e" by simp
  with assms have x: "0 < x" by linarith
  note b = exponent_bounds [OF x]
  have "\<not> exponent x < e"
  proof
    assume "exponent x < e"
    then have "exponent x + 1 \<le> e" by simp
    then have "(2::real) powi (exponent x + 1) \<le> 2 powi e"
      by (intro power_int_increasing) simp_all
    with b assms show False by linarith
  qed
  moreover have "\<not> e < exponent x"
  proof
    assume "e < exponent x"
    then have "e + 1 \<le> exponent x" by simp
    then have "(2::real) powi (e + 1) \<le> 2 powi exponent x"
      by (intro power_int_increasing) simp_all
    with b assms show False by linarith
  qed
  ultimately show ?thesis by linarith
qed

lemma exponent_mono:
  assumes "0 < x" "x \<le> y"
  shows "exponent x \<le> exponent y"
proof (rule ccontr)
  assume "\<not> exponent x \<le> exponent y"
  then have "exponent y + 1 \<le> exponent x" by simp
  then have "(2::real) powi (exponent y + 1) \<le> 2 powi exponent x"
    by (intro power_int_increasing) simp_all
  moreover from assms have "0 < y" by linarith
  ultimately show False
    using exponent_bounds [OF assms(1)] exponent_bounds [of y] assms(2) by linarith
qed

subsection \<open>Rounding to a float\<close>

lemma fl_zero [simp]: "fl 0 = 0"
  by (simp add: fl_def)

lemma fl_minus: "fl (- x) = - fl x"
  by (simp add: fl_def Let_def rhe_minus)

lemma fl_eval:
  assumes "2 powi e \<le> \<bar>x\<bar>" "\<bar>x\<bar> < 2 powi (e + 1)"
  shows "fl x = of_int (round_half_even (x / 2 powi (e - 52))) * 2 powi (e - 52)"
proof -
  have "0 < (2::real) powi e" by simp
  with assms have "x \<noteq> 0" by linarith
  moreover have "exponent \<bar>x\<bar> = e"
    using assms by (rule exponent_unique)
  ultimately show ?thesis by (simp add: fl_def Let_def)
qed

lemma rhe_numeral [simp]: "round_half_even (numeral k) = numeral k"
  using rhe_of_int [of "numeral k"] by simp

lemma scaled_bounds:
  assumes "2 powi e \<le> (x::real)" "x < 2 powi (e + 1)"
  shows "2 ^ 52 \<le> x / 2 powi (e - 52)" and "x / 2 powi (e - 52) < 2 ^ 53"
proof -
  have q: "0 < (2::real) powi (e - 52)" by simp
  have a: "(2::real) powi e = 2 ^ 52 * 2 powi (e - 52)"
    using power_int_add [of "2::real" 52 "e - 52"] by simp
  have b: "(2::real) powi (e + 1) = 2 ^ 53 * 2 powi (e - 52)"
    using power_int_add [of "2::real" 53 "e - 52"] by (simp add: add.commute)
  from assms(1) show "2 ^ 52 \<le> x / 2 powi (e - 52)"
    unfolding a using q by (simp add: pos_le_divide_eq)
  from assms(2) show "x / 2 powi (e - 52) < 2 ^ 53"
    unfolding b using q by (simp add: pos_divide_less_eq)
qed

lemma rounded_bounds:
  assumes "2 powi e \<le> x" "x < 2 powi (e + 1)"
  shows "2 ^ 52 \<le> round_half_even (x / 2 powi (e - 52))"
    and "round_half_even (x / 2 powi (e - 52)) \<le> 2 ^ 53"
proof -
  note s = scaled_bounds [OF assms]
  have "round_half_even (of_int (2 ^ 52)) \<le> round_half_even (x / 2 powi (e - 52))"
    using s(1) by (intro rhe_mono) simp
  then show "2 ^ 52 \<le> round_half_even (x / 2 powi (e - 52))"
    by (simp only: rhe_of_int)
  have "round_half_even (x / 2 powi (e - 52)) \<le> round_half_even (of_int (2 ^ 53))"
    using s(2) by (intro rhe_mono) simp
  then show "round_half_even (x / 2 powi (e - 52)) \<le> 2 ^ 53"
    by (simp only: rhe_of_int)
qed

lemma fl_bounds:
  assumes "2 powi e \<le> x" "x < 2 powi (e + 1)"
  shows "2 powi e \<le> fl x" and "fl x \<le> 2 powi (e + 1)"
proof -
  have q: "0 < (2::real) powi (e - 52)" by simp
  have "0 < (2::real) powi e" by simp
  with assms have x: "\<bar>x\<bar> = x" by linarith
  have f: "fl x = of_int (round_half_even (x / 2 powi (e - 52))) * 2 powi (e - 52)"
    using assms by (intro fl_eval) (simp_all add: x)
  have a: "(2::real) powi e = 2 ^ 52 * 2 powi (e - 52)"
    using power_int_add [of "2::real" 52 "e - 52"] by simp
  have b: "(2::real) powi (e + 1) = 2 ^ 53 * 2 powi (e - 52)"
    using power_int_add [of "2::real" 53 "e - 52"] by (simp add: add.commute)
  note r = rounded_bounds [OF assms]
  have "(2::real) ^ 52 = of_int (2 ^ 52)" by simp
  also have "\<dots> \<le> of_int (round_half_even (x / 2 powi (e - 52)))"
    using r(1) by (simp only: of_int_le_iff)
  finally show "2 powi e \<le> fl x"
    unfolding a f using q by (simp only: mult_le_cancel_right_pos)
  have "(of_int (round_half_even (x / 2 powi (e - 52))) :: real) \<le> of_int (2 ^ 53)"
    using r(2) by (simp only: of_int_le_iff)
  also have "\<dots> = 2 ^ 53" by simp
  finally show "fl x \<le> 2 powi (e + 1)"
    unfolding b f using q by (simp only: mult_le_cancel_right_pos)
qed

lemma fl_pos: "0 < x \<Longrightarrow> 0 < fl x"
proof -
  assume x: "0 < x"
  have "0 < (2::real) powi exponent x" by simp
  also have "\<dots> \<le> fl x"
    using exponent_bounds [OF x] by (intro fl_bounds) simp_all
  finally show ?thesis .
qed

lemma fl_nonneg: "0 \<le> x \<Longrightarrow> 0 \<le> fl x"
  using fl_pos [of x] by (cases "x = 0") (simp_all add: less_le)

lemma fl_mono_pos:
  assumes x: "0 < x" and xy: "x \<le> y"
  shows "fl x \<le> fl y"
proof -
  from x xy have y: "0 < y" by linarith
  note bx = exponent_bounds [OF x] and bz = exponent_bounds [OF y]
  show ?thesis
  proof (cases "exponent x = exponent y")
    case True
    let ?q = "2 powi (exponent x - 52) :: real"
    have q: "0 < ?q" by simp
    have fx: "fl x = of_int (round_half_even (x / ?q)) * ?q"
      using bx x by (intro fl_eval) simp_all
    have fy: "fl y = of_int (round_half_even (y / ?q)) * ?q"
      using bz y True by (intro fl_eval) simp_all
    have "x / ?q \<le> y / ?q"
      using xy q by (simp add: divide_right_mono)
    then have "round_half_even (x / ?q) \<le> round_half_even (y / ?q)"
      by (rule rhe_mono)
    then have "(of_int (round_half_even (x / ?q)) :: real) \<le> of_int (round_half_even (y / ?q))"
      by (simp only: of_int_le_iff)
    then show ?thesis
      unfolding fx fy using q by (simp only: mult_le_cancel_right_pos)
  next
    case False
    with exponent_mono [OF x xy] have "exponent x + 1 \<le> exponent y" by simp
    then have "(2::real) powi (exponent x + 1) \<le> 2 powi exponent y"
      by (intro power_int_increasing) simp_all
    moreover have "fl x \<le> 2 powi (exponent x + 1)"
      using bx by (intro fl_bounds) simp_all
    moreover have "2 powi exponent y \<le> fl y"
      using bz by (intro fl_bounds) simp_all
    ultimately show ?thesis by linarith
  qed
qed

lemma fl_mono: "x \<le> y \<Longrightarrow> fl x \<le> fl y"
proof -
  assume xy: "x \<le> y"
  consider "0 < x" | "x \<le> 0" "0 \<le> y" | "y < 0" by linarith
  then show ?thesis
  proof cases
    case 1
    then show ?thesis using xy by (rule fl_mono_pos)
  next
    case 2
    have "fl x = - fl (- x)" by (simp add: fl_minus)
    moreover have "0 \<le> fl (- x)" using 2 by (intro fl_nonneg) simp
    moreover have "0 \<le> fl y" using 2 by (intro fl_nonneg)
    ultimately show ?thesis by linarith
  next
    case 3
    then have "fl (- y) \<le> fl (- x)"
      using xy by (intro fl_mono_pos) simp_all
    then show ?thesis by (simp add: fl_minus)
  qed
qed

lemma fl_idem_pos:
  assumes x: "0 < x"
  shows "fl (fl x) = fl x"
proof -
  let ?e = "exponent x"
  let ?q = "2 powi (?e - 52) :: real"
  let ?n = "round_half_even (x / ?q)"
  note b = exponent_bounds [OF x]
  have q: "0 < ?q" by simp
  have fx: "fl x = of_int ?n * ?q"
    using b x by (intro fl_eval) simp_all
  have lo: "2 powi ?e \<le> fl x" and hi: "fl x \<le> 2 powi (?e + 1)"
    using b by (auto intro: fl_bounds)
  have p: "0 < fl x" using x by (rule fl_pos)
  show ?thesis
  proof (cases "fl x < 2 powi (?e + 1)")
    case True
    have "fl (fl x) = of_int (round_half_even (fl x / ?q)) * ?q"
      using lo True p by (intro fl_eval) simp_all
    also have "fl x / ?q = of_int ?n"
      unfolding fx using q by simp
    finally show ?thesis
      by (simp only: rhe_of_int fx)
  next
    case False
    with hi have eq: "fl x = 2 powi (?e + 1)" by linarith
    have "(2::real) powi (?e + 1) < 2 powi (?e + 1 + 1)"
      by (intro power_int_strict_increasing) simp_all
    then have "fl (2 powi (?e + 1))
        = of_int (round_half_even (2 powi (?e + 1) / 2 powi (?e + 1 - 52))) * 2 powi (?e + 1 - 52)"
      by (intro fl_eval) simp_all
    also have "(2::real) powi (?e + 1) / 2 powi (?e + 1 - 52) = of_int (2 ^ 52)"
      using power_int_diff [of "2::real" "?e + 1" "?e + 1 - 52"] by simp
    also have "of_int (round_half_even (of_int (2 ^ 52))) * 2 powi (?e + 1 - 52)
        = (2::real) powi (?e + 1)"
      using power_int_add [of "2::real" 52 "?e + 1 - 52"] by (simp add: add.commute)
    finally show ?thesis by (simp only: eq)
  qed
qed

lemma fl_idem [simp]: "fl (fl x) = fl x"
proof -
  consider "0 < x" | "x = 0" | "x < 0" by linarith
  then show ?thesis
  proof cases
    case 1
    then show ?thesis by (rule fl_idem_pos)
  next
    case 2
    then show ?thesis by simp
  next
    case 3
    then have "fl (fl (- x)) = fl (- x)" by (intro fl_idem_pos) simp
    then show ?thesis by (simp add: fl_minus)
  qed
qed

lemma rhe_eqI:
  assumes "of_int n - 1/2 < t" "t < of_int n + 1/2"
  shows "round_half_even t = n"
proof -
  have "\<lfloor>t\<rfloor> = n - 1 \<or> \<lfloor>t\<rfloor> = n"
    using assms by (simp add: floor_eq_iff) linarith
  then show ?thesis
  proof
    assume f: "\<lfloor>t\<rfloor> = n - 1"
    with assms show ?thesis
      by (simp add: round_half_even_def Let_def)
  next
    assume f: "\<lfloor>t\<rfloor> = n"
    with assms show ?thesis
      by (simp add: round_half_even_def Let_def)
  qed
qed

lemma fl_sqrt_30: "fl (sqrt 30) = 6166807764706703 / 1125899906842624"
proof -
  have lo: "4 \<le> sqrt 30" by (rule real_le_rsqrt) simp
  have hi: "sqrt 30 < 8" by (rule real_less_lsqrt) simp_all
  have a: "(6166807764706703 - 1/2) / 1125899906842624 < sqrt 30"
    by (rule real_less_rsqrt) (simp add: power2_eq_square)
  have b: "sqrt 30 < (6166807764706703 + 1/2) / 1125899906842624"
    by (rule real_less_lsqrt) (simp_all add: power2_eq_square)
  have r: "round_half_even (sqrt 30 * 1125899906842624) = 6166807764706703"
    using a b by (intro rhe_eqI) (simp_all add: field_simps)
  have "fl (sqrt 30)
      = of_int (round_half_even (sqrt 30 / 2 powi (2 - 52))) * 2 powi (2 - 52)"
    using lo hi by (intro fl_eval) simp_all
  also have "sqrt 30 / 2 powi (2 - 52) = sqrt 30 * 1125899906842624"
    by (simp add: power_int_minus_divide)
  finally show ?thesis
    by (simp add: r power_int_minus_divide)
qed

lemma fl_powi: "fl (2 powi e) = 2 powi e"
proof -
  have "(2::real) powi e < 2 powi (e + 1)"
    by (intro power_int_strict_increasing) simp_all
  then have "fl (2 powi e)
      = of_int (round_half_even (2 powi e / 2 powi (e - 52))) * 2 powi (e - 52)"
    by (intro fl_eval) simp_all
  also have "(2::real) powi e / 2 powi (e - 52) = of_int (2 ^ 52)"
    using power_int_diff [of "2::real" e "e - 52"] by simp
  also have "of_int (round_half_even (of_int (2 ^ 52))) * 2 powi (e - 52) = (2::real) powi e"
    using power_int_add [of "2::real" 52 "e - 52"] by simp
  finally show ?thesis .
qed

lemma fl_pow2: "fl (2 ^ n) = 2 ^ n"
  using fl_powi [of "int n"] by simp

lemma fl_abs_le:
  assumes "\<bar>x\<bar> \<le> 2 ^ n"
  shows "\<bar>fl x\<bar> \<le> 2 ^ n"
proof -
  from assms have "x \<le> 2 ^ n" and "- (2 ^ n) \<le> x" by linarith+
  then have "fl x \<le> fl (2 ^ n)" and "fl (- (2 ^ n)) \<le> fl x"
    by (auto intro: fl_mono)
  then show ?thesis
    by (simp add: fl_minus fl_pow2 abs_le_iff)
qed

lemma fl_error_pos:
  assumes x: "0 < x"
  shows "\<bar>fl x - x\<bar> \<le> x / 2 ^ 53"
proof -
  let ?e = "exponent x"
  let ?q = "2 powi (?e - 52) :: real"
  let ?n = "round_half_even (x / ?q)"
  note b = exponent_bounds [OF x]
  have q: "0 < ?q" by simp
  have fx: "fl x = of_int ?n * ?q"
    using b x by (intro fl_eval) simp_all
  have a: "(2::real) powi ?e = 2 ^ 52 * ?q"
    using power_int_add [of "2::real" 52 "?e - 52"] by simp
  have "\<bar>of_int ?n - x / ?q\<bar> \<le> 1 / 2"
    using rhe_upper [of "x / ?q"] rhe_lower [of "x / ?q"] by linarith
  then have "\<bar>of_int ?n - x / ?q\<bar> * ?q \<le> 1 / 2 * ?q"
    using q by (intro mult_right_mono) simp_all
  moreover have "\<bar>of_int ?n - x / ?q\<bar> * ?q = \<bar>fl x - x\<bar>"
  proof -
    have "\<bar>of_int ?n - x / ?q\<bar> * ?q = \<bar>(of_int ?n - x / ?q) * ?q\<bar>"
      using q by (simp add: abs_mult)
    also have "(of_int ?n - x / ?q) * ?q = fl x - x"
      using q by (simp add: fx left_diff_distrib)
    finally show ?thesis .
  qed
  ultimately have "\<bar>fl x - x\<bar> \<le> 1 / 2 * ?q" by simp
  also have "?q \<le> x / 2 ^ 52"
    using b a by (simp add: field_simps)
  then have "1 / 2 * ?q \<le> 1 / 2 * (x / 2 ^ 52)" by simp
  also have "1 / 2 * (x / 2 ^ 52) = x / 2 ^ 53" by simp
  finally show ?thesis .
qed

lemma fl_error: "\<bar>fl x - x\<bar> \<le> \<bar>x\<bar> / 2 ^ 53"
proof -
  consider "0 < x" | "x = 0" | "x < 0" by linarith
  then show ?thesis
  proof cases
    case 1
    then show ?thesis using fl_error_pos [of x] by simp
  next
    case 2
    then show ?thesis by simp
  next
    case 3
    then have "\<bar>fl (- x) - (- x)\<bar> \<le> (- x) / 2 ^ 53"
      by (intro fl_error_pos) simp
    moreover have "\<bar>fl (- x) - (- x)\<bar> = \<bar>fl x - x\<bar>"
      by (simp add: fl_minus)
    ultimately show ?thesis using 3 by simp
  qed
qed

lemma rounded_sqrt_accurate: "pow_half_accurate rounded_sqrt"
  unfolding pow_half_accurate_def rounded_sqrt_def
proof (intro allI impI)
  fix x :: real
  assume "0 \<le> x"
  then have s: "0 \<le> sqrt x" by simp
  have "\<bar>fl (sqrt x) - sqrt x\<bar> \<le> \<bar>sqrt x\<bar> / 2 ^ 53" by (rule fl_error)
  also have "\<dots> \<le> sqrt x / 2 ^ 51"
    using s by (simp add: field_simps)
  finally show "\<bar>fl (sqrt x) - sqrt x\<bar> \<le> sqrt x / 2 ^ 51" .
qed

lemma pow_half_accurate_bounds:
  assumes "pow_half_accurate pw" "0 \<le> x"
  shows "0 \<le> pw x" and "pw x \<le> 2 * sqrt x"
proof -
  from assms have a: "\<bar>pw x - sqrt x\<bar> \<le> sqrt x / 2 ^ 51"
    by (simp add: pow_half_accurate_def)
  from assms(2) have s: "0 \<le> sqrt x" by simp
  have "sqrt x / 2 ^ 51 \<le> sqrt x"
    using s by (simp add: field_simps)
  with a show "0 \<le> pw x" and "pw x \<le> 2 * sqrt x" by linarith+
qed

lemma pow_half_accurate_zero: "pow_half_accurate pw \<Longrightarrow> pw 0 = 0"
  using pow_half_accurate_bounds [of pw 0] by simp

subsection \<open>Magnitudes\<close>

lemma finite_float_fl: "\<bar>x\<bar> \<le> 2 ^ n \<Longrightarrow> n < 1024 \<Longrightarrow> finite_float (fl x)"
proof -
  assume a: "\<bar>x\<bar> \<le> 2 ^ n" and n: "n < 1024"
  from a have "\<bar>fl x\<bar> \<le> 2 ^ n" by (rule fl_abs_le)
  also have "(2::real) ^ n < 2 ^ 1024"
    using n by (intro power_strict_increasing) simp_all
  finally show ?thesis by (simp add: finite_float_def)
qed

lemma weaken_bound: "\<bar>x\<bar> \<le> 2 ^ m \<Longrightarrow> m \<le> n \<Longrightarrow> \<bar>x::real\<bar> \<le> 2 ^ n"
proof -
  assume "\<bar>x\<bar> \<le> 2 ^ m" "m \<le> n"
  moreover from \<open>m \<le> n\<close> have "(2::real) ^ m \<le> 2 ^ n"
    by (intro power_increasing) simp_all
  ultimately show ?thesis by linarith
qed

lemma add_bound: "\<bar>x\<bar> \<le> 2 ^ n \<Longrightarrow> \<bar>y\<bar> \<le> 2 ^ n \<Longrightarrow> \<bar>x + y :: real\<bar> \<le> 2 ^ Suc n"
  by simp

lemma sub_bound: "\<bar>x\<bar> \<le> 2 ^ n \<Longrightarrow> \<bar>y\<bar> \<le> 2 ^ n \<Longrightarrow> \<bar>x - y :: real\<bar> \<le> 2 ^ Suc n"
  by simp

lemma mul_bound: "\<bar>x\<bar> \<le> 2 ^ m \<Longrightarrow> \<bar>y\<bar> \<le> 2 ^ n \<Longrightarrow> \<bar>x * y :: real\<bar> \<le> 2 ^ (m + n)"
proof -
  assume "\<bar>x\<bar> \<le> 2 ^ m" "\<bar>y\<bar> \<le> 2 ^ n"
  then have "\<bar>x\<bar> * \<bar>y\<bar> \<le> 2 ^ m * 2 ^ n"
    by (intro mult_mono) simp_all
  then show ?thesis by (simp add: abs_mult power_add)
qed

lemma fadd_bound: "\<bar>x\<bar> \<le> 2 ^ n \<Longrightarrow> \<bar>y\<bar> \<le> 2 ^ n \<Longrightarrow> \<bar>fadd x y\<bar> \<le> 2 ^ Suc n"
  unfolding fadd_def by (intro fl_abs_le add_bound)

lemma fsub_bound: "\<bar>x\<bar> \<le> 2 ^ n \<Longrightarrow> \<bar>y\<bar> \<le> 2 ^ n \<Longrightarrow> \<bar>fsub x y\<bar> \<le> 2 ^ Suc n"
  unfolding fsub_def by (intro fl_abs_le sub_bound)

lemma fmul_bound: "\<bar>x\<bar> \<le> 2 ^ m \<Longrightarrow> \<bar>y\<bar> \<le> 2 ^ n \<Longrightarrow> \<bar>fmul x y\<bar> \<le> 2 ^ (m + n)"
  unfolding fmul_def by (intro fl_abs_le mul_bound)

lemma literal_bound: "\<bar>c\<bar> \<le> 2 ^ 8 \<Longrightarrow> \<bar>fl c\<bar> \<le> 2 ^ 8"
  by (rule fl_abs_le)

lemma int_quotient_raw:
  assumes "\<bar>a\<bar> \<le> 2 ^ 63" "b \<noteq> 0"
  shows "\<bar>real_of_int a / real_of_int b\<bar> \<le> 2 ^ 63"
proof -
  from assms(2) have "1 \<le> \<bar>b\<bar>" by simp
  then have "real_of_int 1 \<le> real_of_int \<bar>b\<bar>" by (simp only: of_int_le_iff)
  then have "1 \<le> \<bar>real_of_int b\<bar>" by simp
  then have "\<bar>real_of_int a / real_of_int b\<bar> \<le> \<bar>real_of_int a\<bar>"
    by (simp add: abs_divide field_simps mult_le_cancel_left1)
  also have "\<dots> = real_of_int \<bar>a\<bar>" by simp
  also have "\<dots> \<le> real_of_int (2 ^ 63)"
    using assms(1) by (simp only: of_int_le_iff)
  also have "\<dots> = 2 ^ 63" by simp
  finally show ?thesis .
qed

lemma int_quotient_bound:
  "\<bar>a\<bar> \<le> 2 ^ 63 \<Longrightarrow> b \<noteq> 0 \<Longrightarrow> \<bar>fl (real_of_int a / real_of_int b)\<bar> \<le> 2 ^ 63"
  by (intro fl_abs_le int_quotient_raw)

lemma div_bound:
  assumes "\<bar>x\<bar> \<le> 2 ^ m" "1 / 2 ^ n \<le> \<bar>y\<bar>"
  shows "\<bar>x / y :: real\<bar> \<le> 2 ^ (m + n)"
proof -
  have "(0::real) < 1 / 2 ^ n" by simp
  with assms(2) have y: "0 < \<bar>y\<bar>" by linarith
  from assms(2) y have "1 / \<bar>y\<bar> \<le> 2 ^ n"
    by (simp add: field_simps)
  with assms(1) have "\<bar>x\<bar> * (1 / \<bar>y\<bar>) \<le> 2 ^ m * 2 ^ n"
    using y by (intro mult_mono) simp_all
  then show ?thesis by (simp add: abs_divide power_add)
qed

lemma is_float_fl [simp]: "is_float (fl x)"
  by (simp add: is_float_def)

lemma is_float_0 [simp]: "is_float 0"
  by (simp add: is_float_def)

lemma finite_float_0 [simp]: "finite_float 0"
  by (simp add: finite_float_def)

lemma fl_1: "fl 1 = 1"
  by code_simp

lemma fl_30: "fl 30 = 30"
  by code_simp

lemma fl_100: "fl 100 = 100"
  by code_simp

section \<open>Errors of the formulas\<close>

lemma py_bind_Inl [simp]: "py_bind (Inl e) f = Inl e"
  by (simp add: py_bind_def)

lemma py_bind_Inr [simp]: "py_bind (Inr v) f = f v"
  by (simp add: py_bind_def)

lemma int_truediv_zero [simp]: "int_truediv a 0 = Inl ZeroDivisionError"
  by (simp add: int_truediv_def)

lemma int_truediv_nonzero: "b \<noteq> 0 \<Longrightarrow> int_truediv a b = Inr (fl (of_int a / of_int b))"
  by (simp add: int_truediv_def)

lemma float_truediv_nonzero: "y \<noteq> 0 \<Longrightarrow> float_truediv x y = Inr (fl (x / y))"
  by (simp add: float_truediv_def)

lemma smog_returns: "\<exists>v. smog pow_half d hw = Inr v"
  by (simp add: smog_def int_truediv_nonzero)

lemma gunning_fog_zero: "n_tokens d = 0 \<Longrightarrow> gunning_fog d hw = Inl ZeroDivisionError"
  by (simp add: gunning_fog_def)

lemma gunning_fog_returns: "n_tokens d \<noteq> 0 \<Longrightarrow> \<exists>v. gunning_fog d hw = Inr v"
  by (simp add: gunning_fog_def int_truediv_nonzero)

lemma lix_zero: "n_tokens d = 0 \<Longrightarrow> lix d lw = Inl ZeroDivisionError"
  by (simp add: lix_def)

lemma lix_returns: "n_tokens d \<noteq> 0 \<Longrightarrow> \<exists>v. lix d lw = Inr v"
  by (simp add: lix_def int_truediv_nonzero)

lemma rix_zero: "n_sentences d = 0 \<Longrightarrow> rix d lw = Inl ZeroDivisionError"
  by (simp add: rix_def)

lemma coleman_liau_index_returns:
  "sentence_length_mean d \<noteq> 0 \<Longrightarrow> \<exists>v. coleman_liau_index d = Inr v"
  by (simp add: coleman_liau_index_def float_truediv_nonzero)

lemma readability_no_tokens:
  assumes "n_tokens d = 0"
  shows "readability pow_half d = Inl ZeroDivisionError"
proof -
  obtain v3 where v3: "smog pow_half d (hard_words d) = Inr v3"
    using smog_returns by blast
  from assms show ?thesis
    by (simp add: readability_def v3 gunning_fog_zero)
qed

lemma readability_no_sentences:
  assumes ns: "n_sentences d = 0" and sl: "sentence_length_mean d \<noteq> 0"
  shows "readability pow_half d = Inl ZeroDivisionError"
proof (cases "n_tokens d = 0")
  case True
  then show ?thesis by (rule readability_no_tokens)
next
  case nt: False
  obtain v3 where v3: "smog pow_half d (hard_words d) = Inr v3"
    using smog_returns by blast
  obtain v4 where v4: "gunning_fog d (hard_words d) = Inr v4"
    using gunning_fog_returns [OF nt] by blast
  obtain v6 where v6: "coleman_liau_index d = Inr v6"
    using coleman_liau_index_returns [OF sl] by blast
  obtain v7 where v7: "lix d (long_words d) = Inr v7"
    using lix_returns [OF nt] by blast
  from ns show ?thesis
    by (simp add: readability_def v3 v4 v6 v7 rix_zero)
qed

section \<open>Magnitudes of the formulas\<close>

lemma hard_words_le: "hard_words d \<le> length (n_syllables d)"
  by (simp add: hard_words_def)

lemma long_words_le: "long_words d \<le> length (filtered_tokens d)"
  by (simp add: long_words_def)

lemma count_bound: "n \<le> 2 ^ 63 \<Longrightarrow> \<bar>int n\<bar> \<le> 2 ^ 63"
proof -
  assume "n \<le> 2 ^ 63"
  then have "int n \<le> int (2 ^ 63)" by (simp only: of_nat_le_iff)
  then show ?thesis by simp
qed

lemma hundred_bound: "\<bar>float_of_int 100\<bar> \<le> 2 ^ 7"
  by (simp add: float_of_int_def fl_100)

lemma flesch_reading_ease_finite:
  assumes "moderate d"
  shows "finite_float (flesch_reading_ease d)"
proof -
  from assms have sl: "\<bar>sentence_length_mean d\<bar> \<le> 2 ^ 500"
    and sp: "\<bar>syllables_per_token_mean d\<bar> \<le> 2 ^ 500"
    by (simp_all add: moderate_def)
  have c1: "\<bar>fl 206.835\<bar> \<le> 2 ^ 8" and c2: "\<bar>fl 1.015\<bar> \<le> 2 ^ 8"
    and c3: "\<bar>fl 84.6\<bar> \<le> 2 ^ 8"
    by (rule literal_bound, simp)+
  have a: "\<bar>fmul (fl 1.015) (sentence_length_mean d)\<bar> \<le> 2 ^ (8 + 500)"
    using c2 sl by (rule fmul_bound)
  have b: "\<bar>fmul (fl 84.6) (syllables_per_token_mean d)\<bar> \<le> 2 ^ (8 + 500)"
    using c3 sp by (rule fmul_bound)
  have "\<bar>fl 206.835\<bar> \<le> 2 ^ (8 + 500)"
    using c1 by (rule weaken_bound) simp
  then have "\<bar>fsub (fl 206.835) (fmul (fl 1.015) (sentence_length_mean d))\<bar>
      \<le> 2 ^ Suc (8 + 500)"
    using a by (rule fsub_bound)
  moreover have "\<bar>fmul (fl 84.6) (syllables_per_token_mean d)\<bar> \<le> 2 ^ Suc (8 + 500)"
    using b by (rule weaken_bound) simp
  ultimately have "\<bar>fsub (fl 206.835) (fmul (fl 1.015) (sentence_length_mean d))
      - fmul (fl 84.6) (syllables_per_token_mean d)\<bar> \<le> 2 ^ Suc (Suc (8 + 500))"
    by (rule sub_bound)
  then show ?thesis
    unfolding flesch_reading_ease_def fsub_def [of "fsub _ _"]
    by (rule finite_float_fl) simp
qed

lemma weighted_sum_finite:
  assumes x: "\<bar>x\<bar> \<le> 2 ^ 500" and y: "\<bar>y\<bar> \<le> 2 ^ 500"
    and a: "\<bar>a\<bar> \<le> 2 ^ 8" and b: "\<bar>b\<bar> \<le> 2 ^ 8" and c: "\<bar>c\<bar> \<le> 2 ^ 8"
  shows "finite_float (fsub (fadd (fmul (fl a) x) (fmul (fl b) y)) (fl c))"
proof -
  have p: "\<bar>fmul (fl a) x\<bar> \<le> 2 ^ (8 + 500)"
    using literal_bound [OF a] x by (rule fmul_bound)
  have q: "\<bar>fmul (fl b) y\<bar> \<le> 2 ^ (8 + 500)"
    using literal_bound [OF b] y by (rule fmul_bound)
  have "\<bar>fadd (fmul (fl a) x) (fmul (fl b) y)\<bar> \<le> 2 ^ Suc (8 + 500)"
    using p q by (rule fadd_bound)
  moreover have "\<bar>fl c\<bar> \<le> 2 ^ Suc (8 + 500)"
    using literal_bound [OF c] by (rule weaken_bound) simp
  ultimately have "\<bar>fadd (fmul (fl a) x) (fmul (fl b) y) - fl c\<bar> \<le> 2 ^ Suc (Suc (8 + 500))"
    by (rule sub_bound)
  then show ?thesis
    unfolding fsub_def by (rule finite_float_fl) simp
qed

lemma flesch_kincaid_grade_finite:
  assumes "moderate d"
  shows "finite_float (flesch_kincaid_grade d)"
  unfolding flesch_kincaid_grade_def
  using assms by (intro weighted_sum_finite) (simp_all add: moderate_def)

lemma automated_readability_index_finite:
  assumes "moderate d"
  shows "finite_float (automated_readability_index d)"
  unfolding automated_readability_index_def
  using assms by (intro weighted_sum_finite) (simp_all add: moderate_def)

lemma percent_bound:
  assumes "n \<le> 2 ^ 63" "b \<noteq> 0"
  shows "\<bar>fmul (fl (real n / real_of_int b)) (float_of_int 100)\<bar> \<le> 2 ^ (63 + 7)"
proof -
  have "\<bar>fl (real_of_int (int n) / real_of_int b)\<bar> \<le> 2 ^ 63"
    using count_bound [OF assms(1)] assms(2) by (rule int_quotient_bound)
  then have "\<bar>fl (real n / real_of_int b)\<bar> \<le> 2 ^ 63" by simp
  then show ?thesis
    using hundred_bound by (rule fmul_bound)
qed

lemma gunning_fog_finite:
  assumes m: "moderate d" and nt: "n_tokens d \<noteq> 0" and hw: "hw \<le> 2 ^ 63"
  shows "\<exists>v. gunning_fog d hw = Inr v \<and> finite_float v"
proof -
  let ?p = "fmul (fl (real hw / real_of_int (n_tokens d))) (float_of_int 100)"
  from m have "\<bar>sentence_length_mean d\<bar> \<le> 2 ^ 500"
    by (simp add: moderate_def)
  moreover have "\<bar>?p\<bar> \<le> 2 ^ 500"
    using percent_bound [OF hw nt] by (rule weaken_bound) simp
  ultimately have "\<bar>fadd (sentence_length_mean d) ?p\<bar> \<le> 2 ^ Suc 500"
    by (rule fadd_bound)
  moreover have "\<bar>fl 0.4\<bar> \<le> 2 ^ 8"
    by (rule literal_bound) simp
  ultimately have "\<bar>fl 0.4 * fadd (sentence_length_mean d) ?p\<bar> \<le> 2 ^ (8 + Suc 500)"
    by (intro mul_bound)
  then have "finite_float (fmul (fl 0.4) (fadd (sentence_length_mean d) ?p))"
    unfolding fmul_def [of "fl 0.4"] by (rule finite_float_fl) simp
  then show ?thesis
    using nt by (simp add: gunning_fog_def int_truediv_nonzero)
qed

lemma lix_finite:
  assumes m: "moderate d" and nt: "n_tokens d \<noteq> 0" and lw: "lw \<le> 2 ^ 63"
  shows "\<exists>v. lix d lw = Inr v \<and> finite_float v"
proof -
  let ?p = "fmul (fl (real lw / real_of_int (n_tokens d))) (float_of_int 100)"
  from m have "\<bar>sentence_length_mean d\<bar> \<le> 2 ^ 500"
    by (simp add: moderate_def)
  moreover have "\<bar>?p\<bar> \<le> 2 ^ 500"
    using percent_bound [OF lw nt] by (rule weaken_bound) simp
  ultimately have "\<bar>sentence_length_mean d + ?p\<bar> \<le> 2 ^ Suc 500"
    by (rule add_bound)
  then have "finite_float (fadd (sentence_length_mean d) ?p)"
    unfolding fadd_def by (rule finite_float_fl) simp
  then show ?thesis
    using nt by (simp add: lix_def int_truediv_nonzero)
qed

lemma rix_finite:
  assumes ns: "n_sentences d \<noteq> 0" and lw: "lw \<le> 2 ^ 63"
  shows "\<exists>v. rix d lw = Inr v \<and> finite_float v"
proof -
  have "\<bar>real_of_int (int lw) / real_of_int (n_sentences d)\<bar> \<le> 2 ^ 63"
    using count_bound [OF lw] ns by (rule int_quotient_raw)
  then have "finite_float (fl (real_of_int (int lw) / real_of_int (n_sentences d)))"
    by (rule finite_float_fl) simp
  then show ?thesis
    using ns by (simp add: rix_def int_truediv_nonzero)
qed

lemma smog_arg_bounds:
  assumes ns: "3 \<le> n_sentences d" and hw: "hw \<le> 2 ^ 63"
  shows "0 \<le> fmul (float_of_int 30) (fl (real hw / real_of_int (n_sentences d)))"
    and "fmul (float_of_int 30) (fl (real hw / real_of_int (n_sentences d))) \<le> 2 ^ 68"
proof -
  let ?q = "fl (real hw / real_of_int (n_sentences d))"
  have "0 \<le> real hw / real_of_int (n_sentences d)"
    using ns by simp
  then have q0: "0 \<le> ?q" by (rule fl_nonneg)
  then show "0 \<le> fmul (float_of_int 30) ?q"
    by (simp add: fmul_def float_of_int_def fl_30 fl_nonneg)
  from ns have "n_sentences d \<noteq> 0" by simp
  with count_bound [OF hw] have "\<bar>fl (real_of_int (int hw) / real_of_int (n_sentences d))\<bar> \<le> 2 ^ 63"
    by (rule int_quotient_bound)
  then have "\<bar>?q\<bar> \<le> 2 ^ 63" by simp
  moreover have "\<bar>float_of_int 30\<bar> \<le> 2 ^ 5"
    by (simp add: float_of_int_def fl_30)
  ultimately have "\<bar>fmul (float_of_int 30) ?q\<bar> \<le> 2 ^ (5 + 63)"
    by (intro fmul_bound)
  then show "fmul (float_of_int 30) ?q \<le> 2 ^ 68" by simp
qed

lemma smog_finite:
  assumes acc: "pow_half_accurate pow_half" and hw: "hw \<le> 2 ^ 63"
  shows "\<exists>v. smog pow_half d hw = Inr v \<and> finite_float v"
proof (cases "3 \<le> n_sentences d")
  case False
  then show ?thesis by (simp add: smog_def)
next
  case True
  let ?a = "fmul (float_of_int 30) (fl (real hw / real_of_int (n_sentences d)))"
  note a = smog_arg_bounds [OF True hw]
  have "sqrt ?a \<le> 2 ^ 34"
    using a(2) by (intro real_le_lsqrt) simp_all
  with pow_half_accurate_bounds [OF acc a(1)] have "\<bar>pow_half ?a\<bar> \<le> 2 ^ 35"
    by simp
  moreover have "\<bar>fl 1.043\<bar> \<le> 2 ^ 8"
    by (rule literal_bound) simp
  ultimately have "\<bar>fmul (fl 1.043) (pow_half ?a)\<bar> \<le> 2 ^ (8 + 35)"
    by (intro fmul_bound)
  moreover have "\<bar>fl 3.1291\<bar> \<le> 2 ^ (8 + 35)"
    by (rule weaken_bound [of _ 8], rule literal_bound) simp_all
  ultimately have "\<bar>fmul (fl 1.043) (pow_half ?a) + fl 3.1291\<bar> \<le> 2 ^ Suc (8 + 35)"
    by (rule add_bound)
  then have "finite_float (fadd (fmul (fl 1.043) (pow_half ?a)) (fl 3.1291))"
    unfolding fadd_def by (rule finite_float_fl) simp
  then show ?thesis
    using True by (simp add: smog_def int_truediv_nonzero)
qed

lemma coleman_liau_index_finite:
  assumes m: "moderate d"
  shows "\<exists>v. coleman_liau_index d = Inr v \<and> finite_float v"
proof -
  let ?l = "fmul (token_length_mean d) (float_of_int 100)"
  let ?q = "fl (float_of_int (n_sentences d) / sentence_length_mean d)"
  let ?s = "fmul ?q (float_of_int 100)"
  from m have tl: "\<bar>token_length_mean d\<bar> \<le> 2 ^ 500"
    and sl: "1 / 2 ^ 500 \<le> \<bar>sentence_length_mean d\<bar>"
    and ns: "\<bar>n_sentences d\<bar> \<le> 2 ^ 63"
    by (simp_all add: moderate_def)
  have "(0::real) < 1 / 2 ^ 500" by simp
  with sl have nz: "sentence_length_mean d \<noteq> 0" by linarith
  have l: "\<bar>?l\<bar> \<le> 2 ^ (500 + 7)"
    using tl hundred_bound by (rule fmul_bound)
  have "real_of_int \<bar>n_sentences d\<bar> \<le> real_of_int (2 ^ 63)"
    using ns by (simp only: of_int_le_iff)
  then have "\<bar>real_of_int (n_sentences d)\<bar> \<le> 2 ^ 63" by simp
  then have "\<bar>float_of_int (n_sentences d)\<bar> \<le> 2 ^ 63"
    unfolding float_of_int_def by (rule fl_abs_le)
  then have "\<bar>float_of_int (n_sentences d) / sentence_length_mean d\<bar> \<le> 2 ^ (63 + 500)"
    using sl by (rule div_bound)
  then have "\<bar>?q\<bar> \<le> 2 ^ (63 + 500)" by (rule fl_abs_le)
  then have s: "\<bar>?s\<bar> \<le> 2 ^ (63 + 500 + 7)"
    using hundred_bound by (rule fmul_bound)
  have c1: "\<bar>fl 0.0588\<bar> \<le> 2 ^ 8" and c2: "\<bar>fl 0.296\<bar> \<le> 2 ^ 8"
    and c3: "\<bar>fl 15.8\<bar> \<le> 2 ^ 8"
    by (rule literal_bound, simp)+
  have "\<bar>fmul (fl 0.0588) ?l\<bar> \<le> 2 ^ (8 + (500 + 7))"
    using c1 l by (rule fmul_bound)
  then have x: "\<bar>fmul (fl 0.0588) ?l\<bar> \<le> 2 ^ 600"
    by (rule weaken_bound) simp
  have "\<bar>fmul (fl 0.296) ?s\<bar> \<le> 2 ^ (8 + (63 + 500 + 7))"
    using c2 s by (rule fmul_bound)
  then have y: "\<bar>fmul (fl 0.296) ?s\<bar> \<le> 2 ^ 600"
    by (rule weaken_bound) simp
  have "\<bar>fsub (fmul (fl 0.0588) ?l) (fmul (fl 0.296) ?s)\<bar> \<le> 2 ^ Suc 600"
    using x y by (rule fsub_bound)
  moreover have "\<bar>fl 15.8\<bar> \<le> 2 ^ Suc 600"
    using c3 by (rule weaken_bound) simp
  ultimately have "\<bar>fsub (fmul (fl 0.0588) ?l) (fmul (fl 0.296) ?s) - fl 15.8\<bar>
      \<le> 2 ^ Suc (Suc 600)"
    by (rule sub_bound)
  then have "finite_float (fsub (fsub (fmul (fl 0.0588) ?l) (fmul (fl 0.296) ?s)) (fl 15.8))"
    unfolding fsub_def [of "fsub _ _"] by (rule finite_float_fl) simp
  then show ?thesis
    using nz by (simp add: coleman_liau_index_def float_truediv_nonzero Let_def)
qed

lemma readability_returns:
  assumes acc: "pow_half_accurate pow_half" and m: "moderate d"
    and nt: "n_tokens d \<noteq> 0" and ns: "n_sentences d \<noteq> 0"
  shows "\<exists>m. readability pow_half d = Inr m \<and> dom m = readability_keys
    \<and> (\<forall>k\<in>readability_keys. \<exists>v. m k = Some v \<and> finite_float v)"
proof -
  from m have "length (n_syllables d) \<le> 2 ^ 63" and "length (filtered_tokens d) \<le> 2 ^ 63"
    by (simp_all add: moderate_def)
  with hard_words_le [of d] long_words_le [of d]
  have hw: "hard_words d \<le> 2 ^ 63" and lw: "long_words d \<le> 2 ^ 63"
    by linarith+
  obtain v3 where v3: "smog pow_half d (hard_words d) = Inr v3" "finite_float v3"
    using smog_finite [OF acc hw] by blast
  obtain v4 where v4: "gunning_fog d (hard_words d) = Inr v4" "finite_float v4"
    using gunning_fog_finite [OF m nt hw] by blast
  obtain v6 where v6: "coleman_liau_index d = Inr v6" "finite_float v6"
    using coleman_liau_index_finite [OF m] by blast
  obtain v7 where v7: "lix d (long_words d) = Inr v7" "finite_float v7"
    using lix_finite [OF m nt lw] by blast
  obtain v8 where v8: "rix d (long_words d) = Inr v8" "finite_float v8"
    using rix_finite [OF ns lw] by blast
  let ?m = "map_of
     [(''flesch_reading_ease'', flesch_reading_ease d),
      (''flesch_kincaid_grade'', flesch_kincaid_grade d),
      (''smog'', v3),
      (''gunning_fog'', v4),
      (''automated_readability_index'', automated_readability_index d),
      (''coleman_liau_index'', v6),
      (''lix'', v7),
      (''rix'', v8)]"
  have r: "readability pow_half d = Inr ?m"
    by (simp add: readability_def v3 v4 v6 v7 v8)
  have k: "dom ?m = readability_keys"
    by (auto simp add: readability_keys_def)
  have f: "\<forall>k\<in>readability_keys. \<exists>v. ?m k = Some v \<and> finite_float v"
    by (simp add: readability_keys_def v3 v4 v6 v7 v8 flesch_reading_ease_finite [OF m]
        flesch_kincaid_grade_finite [OF m] automated_readability_index_finite [OF m])
  from r k f show ?thesis by blast
qed

section \<open>The power function of glibc\<close>

lemma glibc_pow_half_0: "glibc_pow_half 0 = 0"
  by (simp add: glibc_pow_half_def)

lemma glibc_pow_half_30: "glibc_pow_half 30 = fl (sqrt 30)"
  by (simp add: glibc_pow_half_def)

lemma smog_arg_11_60: "fmul 30 (fl (60 / 11)) = 1439360676361309 / 8796093022208"
  by code_simp

lemma sqrt_arg_11_60:
  "(7201280000506875 - 1/2) / 562949953421312 < sqrt (1439360676361309 / 8796093022208)"
  "sqrt (1439360676361309 / 8796093022208) < (7201280000506875 + 1/2) / 562949953421312"
proof -
  show "(7201280000506875 - 1/2) / 562949953421312 < sqrt (1439360676361309 / 8796093022208)"
    by (rule real_less_rsqrt) (simp add: power2_eq_square)
  show "sqrt (1439360676361309 / 8796093022208) < (7201280000506875 + 1/2) / 562949953421312"
    by (rule real_less_lsqrt) (simp_all add: power2_eq_square)
qed

lemma fl_sqrt_arg_11_60:
  "fl (sqrt (1439360676361309 / 8796093022208)) = 7201280000506875 / 562949953421312"
proof -
  let ?x = "1439360676361309 / 8796093022208 :: real"
  have lo: "8 \<le> sqrt ?x" by (rule real_le_rsqrt) simp
  have hi: "sqrt ?x < 16" by (rule real_less_lsqrt) simp_all
  have r: "round_half_even (sqrt ?x * 562949953421312) = 7201280000506875"
    using sqrt_arg_11_60 by (intro rhe_eqI) (simp_all add: field_simps)
  have "fl (sqrt ?x)
      = of_int (round_half_even (sqrt ?x / 2 powi (3 - 52))) * 2 powi (3 - 52)"
    using lo hi by (intro fl_eval) simp_all
  also have "sqrt ?x / 2 powi (3 - 52) = sqrt ?x * 562949953421312"
    by (simp add: power_int_minus_divide)
  finally show ?thesis
    by (simp add: r power_int_minus_divide)
qed

lemma glibc_pow_half_accurate: "pow_half_accurate glibc_pow_half"
  unfolding pow_half_accurate_def
proof (intro allI impI)
  fix x :: real
  assume x: "0 \<le> x"
  show "\<bar>glibc_pow_half x - sqrt x\<bar> \<le> sqrt x / 2 ^ 51"
  proof (cases "x = 1439360676361309 / 8796093022208")
    case True
    have lo: "8 \<le> sqrt (1439360676361309 / 8796093022208)"
      by (rule real_le_rsqrt) simp
    have "\<bar>3600640000253437 / 281474976710656 - sqrt (1439360676361309 / 8796093022208)\<bar>
        \<le> 8 / 2 ^ 51"
      using sqrt_arg_11_60 by simp
    also have "\<dots> \<le> sqrt (1439360676361309 / 8796093022208) / 2 ^ 51"
      using lo by simp
    finally show ?thesis
      by (simp add: True glibc_pow_half_def)
  next
    case False
    have "\<bar>fl (sqrt x) - sqrt x\<bar> \<le> sqrt x / 2 ^ 51"
      using rounded_sqrt_accurate x by (simp add: pow_half_accurate_def rounded_sqrt_def)
    with False show ?thesis by (simp add: glibc_pow_half_def)
  qed
qed

section \<open>The scores of the scenario\<close>

lemma hard_words_scenario: "hard_words scenario_doc = 4"
  by code_simp

lemma long_words_scenario: "long_words scenario_doc = 6"
  by code_simp

lemma flesch_reading_ease_scenario:
  "flesch_reading_ease scenario_doc = fl 69.785 + 1 / 2 ^ 46"
  by code_simp

lemma flesch_kincaid_grade_scenario:
  "flesch_kincaid_grade scenario_doc = fl 6.01 + 2 / 2 ^ 50"
  by code_simp

lemma exponent_scenario: "exponent (fl 69.785) = 6" "exponent (fl 6.01) = 2"
  by code_simp+

lemma smog_scenario:
  "smog pow_half scenario_doc 4 = Inr (fadd (fmul (fl 1.043) (pow_half 30)) (fl 3.1291))"
  by (simp add: smog_def scenario_doc_def int_truediv_nonzero float_of_int_def
      fl_30 fl_1 fmul_def)

lemma smog_scenario_value:
  "fadd (fmul (fl 1.043) (fl (sqrt 30))) (fl 3.1291) = 4977516948545173 / 562949953421312"
  unfolding fl_sqrt_30 by code_simp

lemma gunning_fog_scenario: "gunning_fog scenario_doc 4 = Inr 8"
  by code_simp

lemma automated_readability_index_scenario:
  "automated_readability_index scenario_doc = 2004101834179871 / 281474976710656"
  by code_simp

lemma coleman_liau_index_scenario:
  "coleman_liau_index scenario_doc = Inr (247697979505377 / 140737488355328)"
  by code_simp

lemma lix_scenario: "lix scenario_doc 6 = Inr 25"
  by code_simp

lemma rix_scenario: "rix scenario_doc 6 = Inr 1.5"
  by code_simp

lemma readability_scenario:
  "readability pow_half scenario_doc = Inr (map_of
       [(''flesch_reading_ease'', fl 69.785 + 1 / 2 ^ 46),
        (''flesch_kincaid_grade'', fl 6.01 + 2 / 2 ^ 50),
        (''smog'', fadd (fmul (fl 1.043) (pow_half 30)) (fl 3.1291)),
        (''gunning_fog'', 8),
        (''automated_readability_index'', 2004101834179871 / 281474976710656),
        (''coleman_liau_index'', 247697979505377 / 140737488355328),
        (''lix'', 25),
        (''rix'', 1.5)])"
  by (simp add: readability_def hard_words_scenario long_words_scenario
      flesch_reading_ease_scenario flesch_kincaid_grade_scenario smog_scenario
      gunning_fog_scenario automated_readability_index_scenario
      coleman_liau_index_scenario lix_scenario rix_scenario)

lemma moderate_scenario: "moderate scenario_doc"
  by (simp add: moderate_def scenario_doc_def)

section \<open>SMOG with 11 sentences and 60 hard words\<close>

lemma smog_11_60:
  "smog pow_half (scenario_doc\<lparr>n_sentences := 11\<rparr>) 60 =
     Inr (fadd (fmul (fl 1.043) (pow_half (1439360676361309 / 8796093022208))) (fl 3.1291))"
proof -
  have e: "fmul (float_of_int 30) (fl (60 / 11)) = 1439360676361309 / 8796093022208"
    using smog_arg_11_60 by (simp add: float_of_int_def fl_30)
  have "smog pow_half (scenario_doc\<lparr>n_sentences := 11\<rparr>) 60 =
     Inr (fadd (fmul (fl 1.043) (pow_half (fmul (float_of_int 30) (fl (60 / 11))))) (fl 3.1291))"
    by (simp add: smog_def int_truediv_nonzero)
  then show ?thesis by (simp only: e)
qed

lemma glibc_pow_half_11_60:
  "glibc_pow_half (1439360676361309 / 8796093022208) = 3600640000253437 / 281474976710656"
  by (simp add: glibc_pow_half_def)

lemma smog_11_60_glibc:
  "fadd (fmul (fl 1.043) (3600640000253437 / 281474976710656)) (fl 3.1291)
     = 289764429368103 / 17592186044416"
  by code_simp

lemma smog_11_60_rounded:
  "fadd (fmul (fl 1.043) (7201280000506875 / 562949953421312)) (fl 3.1291)
     = 4636230869889649 / 281474976710656"
  by code_simp

section \<open>Overflow\<close>

lemma fl_1015: "fl 1.015 = 4571153621781053 / 4503599627370496"
  by code_simp

lemma fl_big: "fl (2 ^ 1024 + 2 ^ 1000) = 2 ^ 1024 + 2 ^ 1000"
proof -
  have "fl (2 ^ 1024 + 2 ^ 1000)
      = of_int (round_half_even ((2 ^ 1024 + 2 ^ 1000) / 2 powi (1024 - 52))) * 2 powi (1024 - 52)"
    by (intro fl_eval) simp_all
  also have "((2 ^ 1024 + 2 ^ 1000) / 2 powi (1024 - 52) :: real) = of_int (2 ^ 52 + 2 ^ 28)"
    by simp
  finally show ?thesis
    by (simp only: rhe_of_int) simp
qed

lemma fl_max: "fl (2 ^ 1024 - 2 ^ 971) = 2 ^ 1024 - 2 ^ 971"
proof -
  have "fl (2 ^ 1024 - 2 ^ 971)
      = of_int (round_half_even ((2 ^ 1024 - 2 ^ 971) / 2 powi (1023 - 52))) * 2 powi (1023 - 52)"
    by (intro fl_eval) simp_all
  also have "((2 ^ 1024 - 2 ^ 971) / 2 powi (1023 - 52) :: real) = of_int (2 ^ 53 - 1)"
    by simp
  finally show ?thesis
    by (simp only: rhe_of_int) simp
qed

lemma huge_product: "2 ^ 1024 + 2 ^ 1000 \<le> fmul (fl 1.015) (2 ^ 1024 - 2 ^ 971)"
proof -
  have "(2 ^ 1024 + 2 ^ 1000 :: real) \<le> fl 1.015 * (2 ^ 1024 - 2 ^ 971)"
    unfolding fl_1015 by simp
  then have "fl (2 ^ 1024 + 2 ^ 1000) \<le> fl (fl 1.015 * (2 ^ 1024 - 2 ^ 971))"
    by (rule fl_mono)
  then show ?thesis
    by (simp only: fl_big fmul_def)
qed

lemma flesch_reading_ease_huge: "flesch_reading_ease huge_doc \<le> - (2 ^ 1024)"
proof -
  let ?p = "fmul (fl 1.015) (2 ^ 1024 - 2 ^ 971)"
  have c1: "fl 206.835 \<le> 2 ^ 8"
    using literal_bound [of "206.835"] by simp
  have c3: "0 \<le> fmul (fl 84.6) 1.5"
    unfolding fmul_def by (intro fl_nonneg mult_nonneg_nonneg) simp_all
  have "fl 206.835 - ?p \<le> - (2 ^ 1024)"
    using c1 huge_product by simp
  then have "fl (fl 206.835 - ?p) \<le> fl (- (2 ^ 1024))"
    by (rule fl_mono)
  then have a: "fsub (fl 206.835) ?p \<le> - (2 ^ 1024)"
    by (simp only: fsub_def fl_minus fl_pow2)
  have "fsub (fl 206.835) ?p - fmul (fl 84.6) 1.5 \<le> - (2 ^ 1024)"
    using a c3 by linarith
  then have "fl (fsub (fl 206.835) ?p - fmul (fl 84.6) 1.5) \<le> fl (- (2 ^ 1024))"
    by (rule fl_mono)
  then have "fsub (fsub (fl 206.835) ?p) (fmul (fl 84.6) 1.5) \<le> - (2 ^ 1024)"
    by (simp only: fsub_def [of "fsub _ _"] fl_minus fl_pow2)
  then show ?thesis
    by (simp add: flesch_reading_ease_def huge_doc_def scenario_doc_def)
qed

lemma huge_doc_facts:
  "finite_float (sentence_length_mean huge_doc)"
  "\<not> finite_float (flesch_reading_ease huge_doc)"
proof -
  show "finite_float (sentence_length_mean huge_doc)"
    using fl_max by (simp add: huge_doc_def finite_float_def)
  show "\<not> finite_float (flesch_reading_ease huge_doc)"
    using flesch_reading_ease_huge by (simp add: finite_float_def)
qed

section \<open>The word counts\<close>

text \<open>
  C5: \<open>hard_words\<close> is the number of entries of the per-token syllable counts that are
  at least 3, and \<open>long_words\<close> the number of entries of the filtered tokens that have more
  than 6 characters, each counted by position in its sequence; an entry of 2 syllables is
  not hard and one of 3 is, a token of 6 characters is not long and one of 7 is. Both are
  functions of the sequences alone, computed anew from whatever sequences the document has.
\<close>

theorem hard_and_long_words_count:
  "hard_words d = card {i. i < length (n_syllables d) \<and> 3 \<le> n_syllables d ! i}
   \<and> long_words d = card {i. i < length (filtered_tokens d) \<and> 6 < length (filtered_tokens d ! i)}
   \<and> hard_words (d\<lparr>n_syllables := [2]\<rparr>) = 0
   \<and> hard_words (d\<lparr>n_syllables := [3]\<rparr>) = 1
   \<and> long_words (d\<lparr>filtered_tokens := [''simple'']\<rparr>) = 0
   \<and> long_words (d\<lparr>filtered_tokens := [''simpler'']\<rparr>) = 1
   \<and> hard_words (d\<lparr>n_syllables := xs\<rparr>) = length (filter (\<lambda>s. 3 \<le> s) xs)
   \<and> long_words (d\<lparr>filtered_tokens := ts\<rparr>) = length (filter (\<lambda>t. 6 < length t) ts)"
  by (simp add: hard_words_def long_words_def length_filter_conv_card)

section \<open>Registration\<close>

text \<open>
  C9: when the name \<open>readability\<close> is already among the extensions, constructing the
  component raises nothing and leaves the extensions as they are; in particular a second
  construction after a first one changes nothing, whatever the instance.
\<close>

theorem init_idempotent:
  "(has_extension exts ''readability'' \<longrightarrow> init self exts = Inr exts)
   \<and> (init self exts = Inr exts' \<longrightarrow> init self' exts' = Inr exts')"
  by (auto simp add: init_def has_extension_def set_extension_def split: if_splits)

theorem init_idempotent_witness:
  "has_extension (Map.empty(''readability'' \<mapsto> Getter 0)) ''readability''
   \<and> init 1 (Map.empty(''readability'' \<mapsto> Getter 0))
       = Inr (Map.empty(''readability'' \<mapsto> Getter 0))
   \<and> init 0 Map.empty = Inr (Map.empty(''readability'' \<mapsto> Getter 0))
   \<and> init 2 (Map.empty(''readability'' \<mapsto> Getter 0))
       = Inr (Map.empty(''readability'' \<mapsto> Getter 0))"
proof -
  have h: "has_extension (Map.empty(''readability'' \<mapsto> Getter 0)) ''readability''"
    by (simp add: has_extension_def)
  have i: "init 0 Map.empty = Inr (Map.empty(''readability'' \<mapsto> Getter 0))"
    by (simp add: init_def has_extension_def set_extension_def)
  from h init_idempotent [of "Map.empty(''readability'' \<mapsto> Getter 0)" 1]
  have a: "init 1 (Map.empty(''readability'' \<mapsto> Getter 0))
      = Inr (Map.empty(''readability'' \<mapsto> Getter 0))"
    by blast
  from i init_idempotent [of Map.empty 0 "Map.empty(''readability'' \<mapsto> Getter 0)" 2]
  have b: "init 2 (Map.empty(''readability'' \<mapsto> Getter 0))
      = Inr (Map.empty(''readability'' \<mapsto> Getter 0))"
    by blast
  from h i a b show ?thesis by blast
qed

section \<open>Degenerate documents\<close>

text \<open>
  C1 (as the code has it): with \<open>n_tokens = 0\<close> the divisions of \<open>gunning_fog\<close> and \<open>lix\<close>
  raise \<open>ZeroDivisionError\<close>, and \<open>readability\<close> raises it and returns no mapping; with
  \<open>n_sentences = 0\<close> the division of \<open>rix\<close> raises \<open>ZeroDivisionError\<close>, and so does
  \<open>readability\<close> when the mean sentence length is not zero. These are divisions of an int
  by an int. What \<open>coleman_liau_index\<close> does with \<open>sentence_length_mean = 0\<close> depends on
  the type of float the upstream stage stored and is left out.
\<close>

theorem zero_divisor_raises:
  "(n_tokens d = 0 \<longrightarrow>
      gunning_fog d hw = Inl ZeroDivisionError \<and> lix d lw = Inl ZeroDivisionError
      \<and> readability pow_half d = Inl ZeroDivisionError)
   \<and> (n_sentences d = 0 \<longrightarrow> rix d lw = Inl ZeroDivisionError)
   \<and> (n_sentences d = 0 \<and> sentence_length_mean d \<noteq> 0 \<longrightarrow>
        readability pow_half d = Inl ZeroDivisionError)"
  using gunning_fog_zero lix_zero rix_zero readability_no_tokens readability_no_sentences
  by blast

theorem zero_divisor_raises_witness:
  "n_tokens empty_doc = 0 \<and> n_sentences empty_doc = 0
   \<and> gunning_fog empty_doc 0 = Inl ZeroDivisionError
   \<and> lix empty_doc 0 = Inl ZeroDivisionError
   \<and> readability glibc_pow_half empty_doc = Inl ZeroDivisionError
   \<and> rix empty_doc 0 = Inl ZeroDivisionError
   \<and> n_sentences (scenario_doc\<lparr>n_sentences := 0\<rparr>) = 0
   \<and> sentence_length_mean (scenario_doc\<lparr>n_sentences := 0\<rparr>) \<noteq> 0
   \<and> readability glibc_pow_half (scenario_doc\<lparr>n_sentences := 0\<rparr>) = Inl ZeroDivisionError"
proof -
  have h: "n_tokens empty_doc = 0" "n_sentences empty_doc = 0"
    by (simp_all add: empty_doc_def)
  have k: "n_sentences (scenario_doc\<lparr>n_sentences := 0\<rparr>) = 0"
    "sentence_length_mean (scenario_doc\<lparr>n_sentences := 0\<rparr>) \<noteq> 0"
    by (simp_all add: scenario_doc_def)
  from h k zero_divisor_raises [of empty_doc 0 0 glibc_pow_half]
    zero_divisor_raises [of "scenario_doc\<lparr>n_sentences := 0\<rparr>" 0 0 glibc_pow_half]
  show ?thesis by blast
qed

text \<open>
  The claim of C1 fails on the text of punctuation only, where \<open>gunning_fog\<close> and \<open>lix\<close>
  raise instead of evaluating to a value and so does \<open>readability\<close>, and on the empty
  text, where \<open>rix\<close> raises.
\<close>

theorem punct_doc_raises:
  "n_tokens punct_doc = 0
   \<and> gunning_fog punct_doc (hard_words punct_doc) = Inl ZeroDivisionError
   \<and> lix punct_doc (long_words punct_doc) = Inl ZeroDivisionError
   \<and> readability glibc_pow_half punct_doc = Inl ZeroDivisionError
   \<and> n_sentences empty_doc = 0
   \<and> rix empty_doc (long_words empty_doc) = Inl ZeroDivisionError"
proof -
  have h: "n_tokens punct_doc = 0"
    by (simp add: punct_doc_def)
  have k: "n_sentences empty_doc = 0"
    by (simp add: empty_doc_def)
  show ?thesis
    using h k gunning_fog_zero [OF h] lix_zero [OF h] readability_no_tokens [OF h]
      rix_zero [OF k]
    by simp
qed

section \<open>The keys of the result\<close>

text \<open>
  C3 (as the code has it): for every document of ordinary size whose divisors \<open>n_tokens\<close>,
  \<open>n_sentences\<close> and \<open>sentence_length_mean\<close> are all nonzero, and with a power function of
  the accuracy of the C library's, \<open>readability\<close> returns a mapping with exactly the eight
  keys, each bound to a finite float.
\<close>

theorem readability_keys_nondegenerate:
  "pow_half_accurate pow_half \<Longrightarrow> moderate d \<Longrightarrow>
   n_tokens d \<noteq> 0 \<Longrightarrow> n_sentences d \<noteq> 0 \<Longrightarrow> sentence_length_mean d \<noteq> 0 \<Longrightarrow>
   \<exists>m. readability pow_half d = Inr m \<and> dom m = readability_keys
     \<and> (\<forall>k\<in>readability_keys. \<exists>v. m k = Some v \<and> finite_float v)"
  by (rule readability_returns)

theorem readability_keys_nondegenerate_witness:
  "moderate scenario_doc \<and> n_tokens scenario_doc \<noteq> 0 \<and> n_sentences scenario_doc \<noteq> 0
   \<and> sentence_length_mean scenario_doc \<noteq> 0
   \<and> (\<exists>m. readability glibc_pow_half scenario_doc = Inr m \<and> dom m = readability_keys
     \<and> (\<forall>k\<in>readability_keys. \<exists>v. m k = Some v \<and> finite_float v))"
proof -
  have h: "n_tokens scenario_doc \<noteq> 0" "n_sentences scenario_doc \<noteq> 0"
      "sentence_length_mean scenario_doc \<noteq> 0"
    by (simp_all add: scenario_doc_def)
  from h moderate_scenario
    readability_keys_nondegenerate [OF glibc_pow_half_accurate moderate_scenario h]
  show ?thesis by blast
qed

text \<open>
  The claim of C3 fails on the empty text, where no mapping is returned at all, and on
  the scenario with the largest float as the mean sentence length, where the divisors
  are nonzero and \<open>flesch_reading_ease\<close> overflows (the code returns \<open>-inf\<close>).
\<close>

theorem empty_doc_no_mapping:
  "readability glibc_pow_half empty_doc = Inl ZeroDivisionError
   \<and> n_tokens huge_doc \<noteq> 0 \<and> n_sentences huge_doc \<noteq> 0
   \<and> sentence_length_mean huge_doc \<noteq> 0
   \<and> finite_float (sentence_length_mean huge_doc)
   \<and> \<not> finite_float (flesch_reading_ease huge_doc)"
proof -
  have "readability glibc_pow_half empty_doc = Inl ZeroDivisionError"
    by (rule readability_no_tokens) (simp add: empty_doc_def)
  moreover have "n_tokens huge_doc \<noteq> 0" "n_sentences huge_doc \<noteq> 0"
    "sentence_length_mean huge_doc \<noteq> 0"
    by (simp_all add: huge_doc_def scenario_doc_def)
  ultimately show ?thesis
    using huge_doc_facts by (intro conjI)
qed

section \<open>SMOG\<close>

text \<open>
  C2 (as the code has it): with at least 3 sentences \<open>smog\<close> returns
  \<open>1.043 * (30 * (hard_words / n_sentences)) ** 0.5 + 3.1291\<close>, each operation a float
  operation and \<open>** 0.5\<close> the power function of the platform; this is
  \<open>1.043 * sqrt (30 * (hard_words / n_sentences)) + 3.1291\<close> whenever the power function
  returns the correctly rounded root. With fewer than 3 sentences it returns \<open>0.0\<close>; with
  2 sentences it is \<open>0.0\<close> whatever the number of hard words, and with 3 sentences and no
  hard word it is \<open>3.1291\<close>, the power of \<open>0.0\<close> being \<open>0.0\<close>.
\<close>

theorem smog_formula:
  "smog pow_half d hw =
     Inr (if 3 \<le> n_sentences d
          then fadd (fmul (fl 1.043)
                 (pow_half (fmul 30 (fl (real hw / real_of_int (n_sentences d))))))
                 (fl 3.1291)
          else 0)
   \<and> (3 \<le> n_sentences d
        \<and> pow_half (fmul 30 (fl (real hw / real_of_int (n_sentences d))))
            = fl (sqrt (fmul 30 (fl (real hw / real_of_int (n_sentences d))))) \<longrightarrow>
        smog pow_half d hw =
          Inr (fadd (fmul (fl 1.043)
                 (fl (sqrt (fmul 30 (fl (real hw / real_of_int (n_sentences d)))))))
                 (fl 3.1291)))
   \<and> (n_sentences d = 2 \<longrightarrow> smog pow_half d hw = Inr 0)
   \<and> (n_sentences d = 3 \<and> pow_half 0 = 0 \<longrightarrow> smog pow_half d 0 = Inr (fl 3.1291))"
  by (simp add: smog_def int_truediv_nonzero float_of_int_def fl_30 fmul_def fadd_def)

theorem smog_formula_witness:
  "n_sentences (scenario_doc\<lparr>n_sentences := 2\<rparr>) = 2
   \<and> smog glibc_pow_half (scenario_doc\<lparr>n_sentences := 2\<rparr>) 4 = Inr 0
   \<and> n_sentences (scenario_doc\<lparr>n_sentences := 3\<rparr>) = 3
   \<and> glibc_pow_half 0 = 0
   \<and> smog glibc_pow_half (scenario_doc\<lparr>n_sentences := 3\<rparr>) 0 = Inr (fl 3.1291)
   \<and> 3 \<le> n_sentences scenario_doc
   \<and> smog glibc_pow_half scenario_doc 4
       = Inr (fadd (fmul (fl 1.043) (fl (sqrt 30))) (fl 3.1291))"
proof -
  have a: "n_sentences (scenario_doc\<lparr>n_sentences := 2\<rparr>) = 2" by simp
  have b: "n_sentences (scenario_doc\<lparr>n_sentences := 3\<rparr>) = 3" by simp
  have c: "3 \<le> n_sentences scenario_doc" by (simp add: scenario_doc_def)
  have e: "fmul 30 (fl (real 4 / real_of_int (n_sentences scenario_doc))) = 30"
    by (simp add: scenario_doc_def fl_1 fl_30 fmul_def)
  from smog_formula [of glibc_pow_half scenario_doc 4] c
  have f: "smog glibc_pow_half scenario_doc 4
       = Inr (fadd (fmul (fl 1.043) (fl (sqrt 30))) (fl 3.1291))"
    by (simp only: e glibc_pow_half_30) simp
  from a b glibc_pow_half_0 smog_formula [of glibc_pow_half "scenario_doc\<lparr>n_sentences := 2\<rparr>" 4]
    smog_formula [of glibc_pow_half "scenario_doc\<lparr>n_sentences := 3\<rparr>" 0]
  have "smog glibc_pow_half (scenario_doc\<lparr>n_sentences := 2\<rparr>) 4 = Inr 0"
    and "smog glibc_pow_half (scenario_doc\<lparr>n_sentences := 3\<rparr>) 0 = Inr (fl 3.1291)"
    by blast+
  with a b c f glibc_pow_half_0 show ?thesis by (intro conjI)
qed

text \<open>
  The claim of C2 fails with 11 sentences and 60 hard words: the power function returns
  the float below the correctly rounded root, so \<open>smog\<close> is \<open>16.471200829534098\<close> where
  the formula with the square root gives \<open>16.4712008295341\<close>.
\<close>

theorem smog_not_rounded_sqrt:
  "smog glibc_pow_half (scenario_doc\<lparr>n_sentences := 11\<rparr>) 60
     = Inr (289764429368103 / 17592186044416)
   \<and> fadd (fmul (fl 1.043) (fl (sqrt (fmul 30 (fl (60 / 11)))))) (fl 3.1291)
     = 4636230869889649 / 281474976710656
   \<and> smog glibc_pow_half (scenario_doc\<lparr>n_sentences := 11\<rparr>) 60
     \<noteq> Inr (fadd (fmul (fl 1.043) (fl (sqrt (fmul 30 (fl (60 / 11)))))) (fl 3.1291))"
proof -
  have a: "smog glibc_pow_half (scenario_doc\<lparr>n_sentences := 11\<rparr>) 60
     = Inr (289764429368103 / 17592186044416)"
    by (simp only: smog_11_60 glibc_pow_half_11_60 smog_11_60_glibc)
  have b: "fadd (fmul (fl 1.043) (fl (sqrt (fmul 30 (fl (60 / 11)))))) (fl 3.1291)
     = 4636230869889649 / 281474976710656"
    by (simp only: smog_arg_11_60 fl_sqrt_arg_11_60 smog_11_60_rounded)
  from a b show ?thesis by simp
qed

lemma smog_lower:
  assumes "\<forall>x\<ge>0. 0 \<le> pow_half x" "3 \<le> n_sentences d"
  shows "\<exists>v. smog pow_half d hw = Inr v \<and> fl 3.1291 \<le> v"
proof -
  let ?q = "fl (real hw / real_of_int (n_sentences d))"
  have "0 \<le> real hw / real_of_int (n_sentences d)"
    using assms(2) by simp
  then have "0 \<le> ?q" by (rule fl_nonneg)
  then have "0 \<le> fmul (float_of_int 30) ?q"
    by (simp add: fmul_def float_of_int_def fl_30 fl_nonneg)
  then have "0 \<le> pow_half (fmul (float_of_int 30) ?q)"
    using assms(1) by simp
  moreover have "0 \<le> fl 1.043" by (intro fl_nonneg) simp
  ultimately have "0 \<le> fmul (fl 1.043) (pow_half (fmul (float_of_int 30) ?q))"
    by (simp add: fmul_def fl_nonneg)
  then have "fl (fl 3.1291)
      \<le> fadd (fmul (fl 1.043) (pow_half (fmul (float_of_int 30) ?q))) (fl 3.1291)"
    unfolding fadd_def by (intro fl_mono) simp
  then show ?thesis
    using assms(2) by (simp add: smog_def int_truediv_nonzero)
qed

text \<open>
  C10: \<open>smog\<close> returns exactly \<open>0.0\<close> with fewer than 3 sentences and a value of at least
  \<open>3.1291\<close> with 3 or more, whatever the number of hard words; \<open>3.1291\<close> is positive, so
  the value is never negative and never strictly between \<open>0.0\<close> and \<open>3.1291\<close>. This holds
  for every power function that is nonnegative on nonnegative arguments, and so for the
  correctly rounded root.
\<close>

theorem smog_sentinel_or_at_least:
  "(n_sentences d < 3 \<longrightarrow> smog pow_half d hw = Inr 0)
   \<and> ((\<forall>x\<ge>0. 0 \<le> pow_half x) \<and> 3 \<le> n_sentences d \<longrightarrow>
        (\<exists>v. smog pow_half d hw = Inr v \<and> fl 3.1291 \<le> v))
   \<and> (3 \<le> n_sentences d \<longrightarrow>
        (\<exists>v. smog (\<lambda>x. fl (sqrt x)) d hw = Inr v \<and> fl 3.1291 \<le> v))
   \<and> 0 < fl 3.1291"
proof -
  have "0 < fl 3.1291" by (intro fl_pos) simp
  moreover have "n_sentences d < 3 \<longrightarrow> smog pow_half d hw = Inr 0"
    by (simp add: smog_def)
  moreover have "\<forall>x\<ge>0. 0 \<le> fl (sqrt x)"
    by (simp add: fl_nonneg)
  ultimately show ?thesis
    using smog_lower [of pow_half d hw] smog_lower [of "\<lambda>x. fl (sqrt x)" d hw] by blast
qed

theorem smog_sentinel_or_at_least_witness:
  "n_sentences (scenario_doc\<lparr>n_sentences := 2\<rparr>) < 3
   \<and> smog glibc_pow_half (scenario_doc\<lparr>n_sentences := 2\<rparr>) 4 = Inr 0
   \<and> 3 \<le> n_sentences scenario_doc
   \<and> (\<exists>v. smog rounded_sqrt scenario_doc 4 = Inr v \<and> fl 3.1291 \<le> v)
   \<and> (\<exists>v. smog (\<lambda>x. fl (sqrt x)) scenario_doc 4 = Inr v \<and> fl 3.1291 \<le> v)"
proof -
  have p: "\<forall>x\<ge>0. 0 \<le> rounded_sqrt x"
    by (simp add: rounded_sqrt_def fl_nonneg)
  have a: "n_sentences (scenario_doc\<lparr>n_sentences := 2\<rparr>) < 3" by simp
  have b: "3 \<le> n_sentences scenario_doc" by (simp add: scenario_doc_def)
  from p a b smog_sentinel_or_at_least [of "scenario_doc\<lparr>n_sentences := 2\<rparr>" glibc_pow_half 4]
    smog_sentinel_or_at_least [of scenario_doc rounded_sqrt 4]
  show ?thesis by blast
qed

section \<open>The automated readability index and the Coleman-Liau index\<close>

text \<open>
  C6: \<open>automated_readability_index\<close> is
  \<open>4.71 * token_length_mean + 0.5 * sentence_length_mean - 21.43\<close>, and with
  \<open>sentence_length_mean \<noteq> 0\<close> \<open>coleman_liau_index\<close> returns
  \<open>0.0588 * (token_length_mean * 100) - 0.296 * ((n_sentences / sentence_length_mean) * 100)
  - 15.8\<close>, each operation a float operation.
\<close>

theorem ari_and_coleman_liau_formulas:
  "automated_readability_index d =
     fsub (fadd (fmul (fl 4.71) (token_length_mean d)) (fmul (fl 0.5) (sentence_length_mean d)))
          (fl 21.43)
   \<and> (sentence_length_mean d \<noteq> 0 \<longrightarrow>
        coleman_liau_index d =
          Inr (fsub (fsub (fmul (fl 0.0588) (fmul (token_length_mean d) 100))
                          (fmul (fl 0.296)
                             (fmul (fl (float_of_int (n_sentences d) / sentence_length_mean d))
                                100)))
                    (fl 15.8)))"
  by (simp add: automated_readability_index_def coleman_liau_index_def Let_def
      float_truediv_nonzero float_of_int_def fl_100)

theorem ari_and_coleman_liau_formulas_witness:
  "sentence_length_mean scenario_doc \<noteq> 0
   \<and> coleman_liau_index scenario_doc =
          Inr (fsub (fsub (fmul (fl 0.0588) (fmul (token_length_mean scenario_doc) 100))
                          (fmul (fl 0.296)
                             (fmul (fl (float_of_int (n_sentences scenario_doc)
                                      / sentence_length_mean scenario_doc)) 100)))
                    (fl 15.8))"
proof -
  have h: "sentence_length_mean scenario_doc \<noteq> 0"
    by (simp add: scenario_doc_def)
  with ari_and_coleman_liau_formulas [of scenario_doc] show ?thesis
    by blast
qed

section \<open>Monotonicity in the sentence length\<close>

text \<open>
  C7 (as the code has it): when only \<open>sentence_length_mean\<close> changes, a strictly larger
  one yields a \<open>flesch_reading_ease\<close> that is no larger and a \<open>flesch_kincaid_grade\<close> that
  is no smaller.
\<close>

theorem flesch_monotone:
  assumes "sentence_length_mean d < s"
  shows "flesch_reading_ease (d\<lparr>sentence_length_mean := s\<rparr>) \<le> flesch_reading_ease d
     \<and> flesch_kincaid_grade d \<le> flesch_kincaid_grade (d\<lparr>sentence_length_mean := s\<rparr>)"
proof -
  have c1: "0 \<le> fl 1.015" and c2: "0 \<le> fl 0.39"
    by (intro fl_nonneg; simp)+
  have m1: "fmul (fl 1.015) (sentence_length_mean d) \<le> fmul (fl 1.015) s"
    unfolding fmul_def using assms c1 by (intro fl_mono mult_left_mono) simp_all
  have m2: "fmul (fl 0.39) (sentence_length_mean d) \<le> fmul (fl 0.39) s"
    unfolding fmul_def using assms c2 by (intro fl_mono mult_left_mono) simp_all
  have "fsub (fl 206.835) (fmul (fl 1.015) s)
      \<le> fsub (fl 206.835) (fmul (fl 1.015) (sentence_length_mean d))"
    unfolding fsub_def using m1 by (intro fl_mono) simp
  then have a: "flesch_reading_ease (d\<lparr>sentence_length_mean := s\<rparr>) \<le> flesch_reading_ease d"
    unfolding flesch_reading_ease_def fsub_def by (intro fl_mono) simp
  have "fadd (fmul (fl 0.39) (sentence_length_mean d)) (fmul (fl 11.8) (syllables_per_token_mean d))
      \<le> fadd (fmul (fl 0.39) s) (fmul (fl 11.8) (syllables_per_token_mean d))"
    unfolding fadd_def using m2 by (intro fl_mono) simp
  then have b: "flesch_kincaid_grade d \<le> flesch_kincaid_grade (d\<lparr>sentence_length_mean := s\<rparr>)"
    unfolding flesch_kincaid_grade_def fsub_def by (intro fl_mono) simp
  from a b show ?thesis ..
qed

theorem flesch_monotone_witness:
  "sentence_length_mean scenario_doc < 11
   \<and> flesch_reading_ease (scenario_doc\<lparr>sentence_length_mean := 11\<rparr>)
       \<le> flesch_reading_ease scenario_doc
   \<and> flesch_kincaid_grade scenario_doc
       \<le> flesch_kincaid_grade (scenario_doc\<lparr>sentence_length_mean := 11\<rparr>)"
proof -
  have h: "sentence_length_mean scenario_doc < 11"
    by (simp add: scenario_doc_def)
  with flesch_monotone [OF h] show ?thesis by blast
qed

text \<open>
  The claim of C7 fails between \<open>10.0\<close> and the float that follows it: the sentence
  length is strictly larger and \<open>flesch_reading_ease\<close> is the same.
\<close>

theorem flesch_not_strictly_monotone:
  "is_float (sentence_length_mean scenario_doc) \<and> is_float next_after_ten
   \<and> sentence_length_mean scenario_doc < next_after_ten
   \<and> flesch_reading_ease (scenario_doc\<lparr>sentence_length_mean := next_after_ten\<rparr>)
      = flesch_reading_ease scenario_doc"
  by code_simp

section \<open>The scenario\<close>

text \<open>
  C4 (as the code has it): on the scenario, with 4 hard and 6 long words,
  \<open>flesch_reading_ease\<close> is one unit in the last place above the float \<open>69.785\<close> (the unit
  there is \<open>2 ^ -46\<close>; Python writes the result \<open>69.78500000000001\<close>),
  \<open>flesch_kincaid_grade\<close> is two units in the last place above the float \<open>6.01\<close> (the unit
  there is \<open>2 ^ -50\<close>; the result is written \<open>6.010000000000002\<close>), \<open>smog\<close> is
  \<open>1.043 * 30 ** 0.5 + 3.1291\<close> in float operations, which is \<open>8.841846274778883\<close> when the
  power function returns the correctly rounded root of 30, \<open>gunning_fog\<close> is \<open>8.0\<close> and
  \<open>rix\<close> is \<open>1.5\<close>.
\<close>

theorem scenario_scores:
  "hard_words scenario_doc = 4 \<and> long_words scenario_doc = 6
   \<and> readability pow_half scenario_doc = Inr (map_of
       [(''flesch_reading_ease'', fl 69.785 + 1 / 2 ^ 46),
        (''flesch_kincaid_grade'', fl 6.01 + 2 / 2 ^ 50),
        (''smog'', fadd (fmul (fl 1.043) (pow_half 30)) (fl 3.1291)),
        (''gunning_fog'', 8),
        (''automated_readability_index'', 2004101834179871 / 281474976710656),
        (''coleman_liau_index'', 247697979505377 / 140737488355328),
        (''lix'', 25),
        (''rix'', 1.5)])
   \<and> exponent (fl 69.785) = 6 \<and> exponent (fl 6.01) = 2
   \<and> (pow_half 30 = fl (sqrt 30) \<longrightarrow>
        fadd (fmul (fl 1.043) (pow_half 30)) (fl 3.1291) = 4977516948545173 / 562949953421312)"
proof -
  have "pow_half 30 = fl (sqrt 30) \<longrightarrow>
        fadd (fmul (fl 1.043) (pow_half 30)) (fl 3.1291) = 4977516948545173 / 562949953421312"
    using smog_scenario_value by simp
  with hard_words_scenario long_words_scenario readability_scenario [of pow_half]
    exponent_scenario
  show ?thesis by (intro conjI)
qed

theorem scenario_scores_witness:
  "glibc_pow_half 30 = fl (sqrt 30)
   \<and> readability glibc_pow_half scenario_doc = Inr (map_of
       [(''flesch_reading_ease'', fl 69.785 + 1 / 2 ^ 46),
        (''flesch_kincaid_grade'', fl 6.01 + 2 / 2 ^ 50),
        (''smog'', 4977516948545173 / 562949953421312),
        (''gunning_fog'', 8),
        (''automated_readability_index'', 2004101834179871 / 281474976710656),
        (''coleman_liau_index'', 247697979505377 / 140737488355328),
        (''lix'', 25),
        (''rix'', 1.5)])"
proof -
  from scenario_scores [of glibc_pow_half] glibc_pow_half_30
  have "readability glibc_pow_half scenario_doc = Inr (map_of
       [(''flesch_reading_ease'', fl 69.785 + 1 / 2 ^ 46),
        (''flesch_kincaid_grade'', fl 6.01 + 2 / 2 ^ 50),
        (''smog'', fadd (fmul (fl 1.043) (glibc_pow_half 30)) (fl 3.1291)),
        (''gunning_fog'', 8),
        (''automated_readability_index'', 2004101834179871 / 281474976710656),
        (''coleman_liau_index'', 247697979505377 / 140737488355328),
        (''lix'', 25),
        (''rix'', 1.5)])"
    and "fadd (fmul (fl 1.043) (glibc_pow_half 30)) (fl 3.1291)
        = 4977516948545173 / 562949953421312"
    by blast+
  then show ?thesis
    using glibc_pow_half_30 by (simp only:)
qed

text \<open>
  The claim of C4 fails as it is written: the floats returned for \<open>flesch_reading_ease\<close>
  and \<open>flesch_kincaid_grade\<close> are not the floats \<open>69.785\<close> and \<open>6.01\<close>.
\<close>

theorem scenario_flesch_not_exact:
  "flesch_reading_ease scenario_doc \<noteq> fl 69.785
   \<and> flesch_kincaid_grade scenario_doc \<noteq> fl 6.01"
  by (simp add: flesch_reading_ease_scenario flesch_kincaid_grade_scenario)

end
